theory Spec2Isabelle
  imports Main "HOL-Library.Word"
begin

unbundle bit_operations_syntax

section \<open>Data model\<close>

text \<open>
  Byte slices and Go strings are byte sequences: \<open>string\<close>. The type \<open>int64\<close> is
  \<open>64 word\<close> (arithmetic wraps, \<open>sint\<close> reads the signed value), \<open>float64\<close> is its
  IEEE-754 bit pattern in a \<open>64 word\<close>, Go's \<open>int\<close> (lengths, capacities, sizes) is \<open>int\<close>.
\<close>

type_synonym int64 = "64 word"
type_synonym float64 = "64 word"
type_synonym bytes = string

text \<open>
  \<open>ClientOptions\<close>: the fields are those of the struct literal in \<open>NewClient\<close>. The
  \<open>Logger\<close> field is the diagnostic sink; what is printed to it is kept in the \<open>logger\<close>
  component of the system state below. Durations are in nanoseconds.
\<close>

record ClientOptions =
  Addr :: string
  MetricPrefix :: string
  MaxPacketSize :: int
  FlushInterval :: int
  ReconnectInterval :: int
  ReportInterval :: int
  RetryTimeout :: int
  BufPoolCapacity :: int
  SendQueueCapacity :: int
  SendLoopCount :: int

text \<open>
  \<open>Client\<close>: the struct of the source. A buffered channel of byte slices is the list of
  the slices it holds, oldest first, its capacity being the option it was made with;
  \<open>sendQueueClosed\<close> and \<open>shutdown\<close> tell whether \<open>sendQueue\<close> and the \<open>shutdown\<close>
  channel have been closed; \<open>shutdownWg\<close> is the counter of the wait group. The mutex
  \<open>bufLock\<close> is not a field: every function below that locks it runs as one atomic step.

  Besides its buffer a channel has the queue of the goroutines blocked in a receive on
  it. For \<open>sendQueue\<close> these are send loops, each blocked in its \<open>select\<close>:
  \<open>sendQueueRecvq\<close> lists them, the longest waiting first, and \<open>sendQueueHanded\<close> holds
  the slices that a send has handed directly to such a send loop, with the index of the
  loop, until the loop takes its slice up. Nothing ever blocks on \<open>bufPool\<close>, which is
  only sent to and received from without blocking: its list is all of its state.
\<close>

record Client =
  options :: ClientOptions
  bufPool :: "bytes list"
  buf :: bytes
  bufSize :: int
  sendQueue :: "bytes list"
  sendQueueClosed :: bool
  sendQueueRecvq :: "nat list"
  sendQueueHanded :: "(nat \<times> bytes) list"
  shutdown :: bool
  shutdownWg :: int
  lostPacketsPeriod :: int64
  lostPacketsOverall :: int64

text \<open>Run-time panics of the Go runtime that the modelled code can raise.\<close>

datatype panic =
  SendOnClosedChannel
  | CloseOfClosedChannel
  | MakechanSizeOutOfRange

section \<open>Number formatting (package strconv)\<close>

text \<open>
  \<open>strconv.AppendInt(buf, i, 10)\<close> appends the signed decimal numeral of \<open>i\<close>: a minus
  sign for a negative value, then the digits without leading zeros.
\<close>

fun formatUint :: "nat \<Rightarrow> string" where
  "formatUint n =
     (if n < 10 then [''0123456789'' ! n]
      else formatUint (n div 10) @ [''0123456789'' ! (n mod 10)])"

declare formatUint.simps [simp del]

definition formatInt :: "int64 \<Rightarrow> string" where
  "formatInt i =
     (if sint i < 0 then CHR ''-'' # formatUint (nat (- sint i))
      else formatUint (nat (sint i)))"

text \<open>
  \<open>strconv.AppendFloat(buf, f, 'f', -1, 64)\<close> and the conversion
  \<open>float64(delta) / float64(time.Millisecond)\<close> are floating-point operations of the Go
  library and runtime; the model takes them as parameters.
\<close>

record strconv =
  formatFloat :: "float64 \<Rightarrow> string"
  durationMs :: "int64 \<Rightarrow> float64"

text \<open>
  The comparison \<open>value < 0\<close> on a \<open>float64\<close>: the sign bit is set, and the value is
  neither a zero nor a NaN (a NaN has all exponent bits set and a non-zero fraction).
\<close>

definition f64_lt_zero :: "float64 \<Rightarrow> bool" where
  "f64_lt_zero w =
     (bit w 63 \<and> w AND 0x7FFFFFFFFFFFFFFF \<noteq> 0
        \<and> w AND 0x7FFFFFFFFFFFFFFF \<le> 0x7FF0000000000000)"

section \<open>buffers.go\<close>

text \<open>
  \<open>flushBuf\<close>: \<open>sendBuf\<close> is \<open>c.buf[0:length]\<close>, \<open>tail\<close> the rest. The new buffer comes from
  the pool, resliced to length zero, or is made fresh; the tail is copied into it. Then the
  non-blocking send: a send on a closed channel panics; with a receiver blocked on the
  channel (its buffer is then empty) the slice is handed to the one waiting longest,
  whatever the capacity; else a channel with room in its buffer enqueues; otherwise the
  send cannot proceed and the default branch adds one to both loss counters.
\<close>

definition flushBuf :: "Client \<Rightarrow> nat \<Rightarrow> panic + Client" where
  "flushBuf c len =
     (let sendBuf = take len (buf c);
          tail = drop len (buf c);
          c1 = (case bufPool c of
                  b # rest \<Rightarrow> c\<lparr>bufPool := rest, buf := take 0 b\<rparr>
                | [] \<Rightarrow> c\<lparr>buf := []\<rparr>);
          c2 = c1\<lparr>buf := buf c1 @ tail\<rparr>
      in if sendQueueClosed c2 then Inl SendOnClosedChannel
         else
           (case sendQueueRecvq c2 of
              r # waiting \<Rightarrow>
                Inr (c2\<lparr>sendQueueRecvq := waiting,
                         sendQueueHanded := sendQueueHanded c2 @ [(r, sendBuf)]\<rparr>)
            | [] \<Rightarrow>
                if int (length (sendQueue c2)) < SendQueueCapacity (options c2)
                then Inr (c2\<lparr>sendQueue := sendQueue c2 @ [sendBuf]\<rparr>)
                else Inr (c2\<lparr>lostPacketsPeriod := lostPacketsPeriod c2 + 1,
                              lostPacketsOverall := lostPacketsOverall c2 + 1\<rparr>)))"

definition checkBuf :: "Client \<Rightarrow> nat \<Rightarrow> panic + Client" where
  "checkBuf c lastLen =
     (if int (length (buf c)) > MaxPacketSize (options c) then flushBuf c lastLen
      else Inr c)"

section \<open>The client: metric emission\<close>

definition GetLostPackets :: "Client \<Rightarrow> int64" where
  "GetLostPackets c = lostPacketsOverall c"

definition Incr :: "Client \<Rightarrow> string \<Rightarrow> int64 \<Rightarrow> panic + Client" where
  "Incr c stat count =
     (if 0 \<noteq> count then
        (let lastLen = length (buf c);
             c1 = c\<lparr>buf := buf c @ MetricPrefix (options c)\<rparr>;
             c2 = c1\<lparr>buf := buf c1 @ stat\<rparr>;
             c3 = c2\<lparr>buf := buf c2 @ '':''\<rparr>;
             c4 = c3\<lparr>buf := buf c3 @ formatInt count\<rparr>;
             c5 = c4\<lparr>buf := buf c4 @ ''|c'' @ [CHR 0x0A]\<rparr>
         in checkBuf c5 lastLen)
      else Inr c)"

definition Decr :: "Client \<Rightarrow> string \<Rightarrow> int64 \<Rightarrow> panic + Client" where
  "Decr c stat count = Incr c stat (- count)"

definition Timing :: "Client \<Rightarrow> string \<Rightarrow> int64 \<Rightarrow> panic + Client" where
  "Timing c stat delta =
     (let lastLen = length (buf c);
          c1 = c\<lparr>buf := buf c @ MetricPrefix (options c)\<rparr>;
          c2 = c1\<lparr>buf := buf c1 @ stat\<rparr>;
          c3 = c2\<lparr>buf := buf c2 @ '':''\<rparr>;
          c4 = c3\<lparr>buf := buf c3 @ formatInt delta\<rparr>;
          c5 = c4\<lparr>buf := buf c4 @ ''|ms'' @ [CHR 0x0A]\<rparr>
      in checkBuf c5 lastLen)"

definition PrecisionTiming :: "strconv \<Rightarrow> Client \<Rightarrow> string \<Rightarrow> int64 \<Rightarrow> panic + Client" where
  "PrecisionTiming sc c stat delta =
     (let lastLen = length (buf c);
          c1 = c\<lparr>buf := buf c @ MetricPrefix (options c)\<rparr>;
          c2 = c1\<lparr>buf := buf c1 @ stat\<rparr>;
          c3 = c2\<lparr>buf := buf c2 @ '':''\<rparr>;
          c4 = c3\<lparr>buf := buf c3 @ formatFloat sc (durationMs sc delta)\<rparr>;
          c5 = c4\<lparr>buf := buf c4 @ ''|ms'' @ [CHR 0x0A]\<rparr>
      in checkBuf c5 lastLen)"

definition igauge :: "Client \<Rightarrow> string \<Rightarrow> bytes \<Rightarrow> int64 \<Rightarrow> panic + Client" where
  "igauge c stat sign v =
     (let lastLen = length (buf c);
          c1 = c\<lparr>buf := buf c @ MetricPrefix (options c)\<rparr>;
          c2 = c1\<lparr>buf := buf c1 @ stat\<rparr>;
          c3 = c2\<lparr>buf := buf c2 @ '':''\<rparr>;
          c4 = c3\<lparr>buf := buf c3 @ sign\<rparr>;
          c5 = c4\<lparr>buf := buf c4 @ formatInt v\<rparr>;
          c6 = c5\<lparr>buf := buf c5 @ ''|g'' @ [CHR 0x0A]\<rparr>
      in checkBuf c6 lastLen)"

text \<open>
  \<open>Gauge\<close>: the first \<open>igauge\<close> call, when it panics, unwinds the whole call; otherwise
  the second call runs on the client the first one left.
\<close>

definition Gauge :: "Client \<Rightarrow> string \<Rightarrow> int64 \<Rightarrow> panic + Client" where
  "Gauge c stat v =
     (case (if sint v < 0 then igauge c stat [] 0 else Inr c) of
        Inl p \<Rightarrow> Inl p
      | Inr c1 \<Rightarrow> igauge c1 stat [] v)"

definition GaugeDelta :: "Client \<Rightarrow> string \<Rightarrow> int64 \<Rightarrow> panic + Client" where
  "GaugeDelta c stat v =
     (if sint v < 0 then igauge c stat [] v
      else igauge c stat [CHR ''+''] v)"

definition fgauge :: "strconv \<Rightarrow> Client \<Rightarrow> string \<Rightarrow> bytes \<Rightarrow> float64 \<Rightarrow> panic + Client" where
  "fgauge sc c stat sign v =
     (let lastLen = length (buf c);
          c1 = c\<lparr>buf := buf c @ MetricPrefix (options c)\<rparr>;
          c2 = c1\<lparr>buf := buf c1 @ stat\<rparr>;
          c3 = c2\<lparr>buf := buf c2 @ '':''\<rparr>;
          c4 = c3\<lparr>buf := buf c3 @ sign\<rparr>;
          c5 = c4\<lparr>buf := buf c4 @ formatFloat sc v\<rparr>;
          c6 = c5\<lparr>buf := buf c5 @ ''|g'' @ [CHR 0x0A]\<rparr>
      in checkBuf c6 lastLen)"

definition FGauge :: "strconv \<Rightarrow> Client \<Rightarrow> string \<Rightarrow> float64 \<Rightarrow> panic + Client" where
  "FGauge sc c stat v =
     (case (if f64_lt_zero v then igauge c stat [] 0 else Inr c) of
        Inl p \<Rightarrow> Inl p
      | Inr c1 \<Rightarrow> fgauge sc c1 stat [] v)"

definition FGaugeDelta :: "strconv \<Rightarrow> Client \<Rightarrow> string \<Rightarrow> float64 \<Rightarrow> panic + Client" where
  "FGaugeDelta sc c stat v =
     (if f64_lt_zero v then fgauge sc c stat [] v
      else fgauge sc c stat [CHR ''+''] v)"

definition SetAdd :: "Client \<Rightarrow> string \<Rightarrow> string \<Rightarrow> panic + Client" where
  "SetAdd c stat v =
     (let lastLen = length (buf c);
          c1 = c\<lparr>buf := buf c @ MetricPrefix (options c)\<rparr>;
          c2 = c1\<lparr>buf := buf c1 @ stat\<rparr>;
          c3 = c2\<lparr>buf := buf c2 @ '':''\<rparr>;
          c4 = c3\<lparr>buf := buf c3 @ v\<rparr>;
          c5 = c4\<lparr>buf := buf c4 @ ''|s'' @ [CHR 0x0A]\<rparr>
      in checkBuf c5 lastLen)"

text \<open>
  A metric-emission call, as a value: the method and its arguments.
\<close>

datatype metric =
  MIncr string int64
  | MDecr string int64
  | MTiming string int64
  | MPrecisionTiming string int64
  | MGauge string int64
  | MGaugeDelta string int64
  | MFGauge string float64
  | MFGaugeDelta string float64
  | MSetAdd string string

fun emit :: "strconv \<Rightarrow> Client \<Rightarrow> metric \<Rightarrow> panic + Client" where
  "emit sc c (MIncr stat n) = Incr c stat n"
| "emit sc c (MDecr stat n) = Decr c stat n"
| "emit sc c (MTiming stat d) = Timing c stat d"
| "emit sc c (MPrecisionTiming stat d) = PrecisionTiming sc c stat d"
| "emit sc c (MGauge stat v) = Gauge c stat v"
| "emit sc c (MGaugeDelta stat v) = GaugeDelta c stat v"
| "emit sc c (MFGauge stat v) = FGauge sc c stat v"
| "emit sc c (MFGaugeDelta stat v) = FGaugeDelta sc c stat v"
| "emit sc c (MSetAdd stat v) = SetAdd c stat v"

section \<open>The background loops\<close>

text \<open>
  The client runs one flush loop, \<open>SendLoopCount\<close> send loops and, when the report
  interval is positive, one report loop. \<open>System\<close> is the client together with the
  control state of these goroutines and of the caller of \<open>Close\<close>, the datagrams written
  to the socket so far (\<open>wire\<close>) and the records printed to the logger.

  A send loop is at label \<open>RECONNECT\<close> (\<open>Connecting\<close>), at its \<open>select\<close> with a socket
  (\<open>Ready\<close>), blocked in that \<open>select\<close> (\<open>Parked\<close>), asleep at label \<open>WAIT\<close>
  (\<open>Waiting\<close>), or has returned (\<open>Closed\<close>).
\<close>

datatype thread = NotStarted | Running | Exited

datatype worker = Connecting | Ready | Parked | Waiting | Closed

datatype logrec =
  ErrorConnecting
  | ErrorWriting
  | PacketsLost int64

record System =
  client :: Client
  flushLoop :: thread
  sendLoops :: "worker list"
  reportLoop :: thread
  closeCaller :: thread
  wire :: "bytes list"
  logger :: "logrec list"

text \<open>
  \<open>NewClient\<close>: the defaults (the \<open>Default...\<close> constants) are a parameter, the
  options are functions applied in order. \<open>bufSize\<close> is computed before the options are
  applied. \<open>make\<close> of a channel with a negative capacity panics.
\<close>

definition NewClient ::
  "ClientOptions \<Rightarrow> string \<Rightarrow> (ClientOptions \<Rightarrow> ClientOptions) list \<Rightarrow> panic + System" where
  "NewClient defaults addr opts =
     (let o0 = defaults\<lparr>Addr := addr\<rparr>;
          sz = MaxPacketSize o0 + 1024;
          o1 = fold (\<lambda>option opt. option opt) opts o0
      in if BufPoolCapacity o1 < 0 \<or> SendQueueCapacity o1 < 0 then Inl MakechanSizeOutOfRange
         else Inr \<lparr>client = \<lparr>options = o1, bufPool = [], buf = [], bufSize = sz,
                               sendQueue = [], sendQueueClosed = False,
                               sendQueueRecvq = [], sendQueueHanded = [],
                               shutdown = False,
                               shutdownWg = int (nat (SendLoopCount o1))
                                            + (if ReportInterval o1 > 0 then 1 else 0),
                               lostPacketsPeriod = 0, lostPacketsOverall = 0\<rparr>,
                    flushLoop = Running,
                    sendLoops = replicate (nat (SendLoopCount o1)) Connecting,
                    reportLoop = (if ReportInterval o1 > 0 then Running else NotStarted),
                    closeCaller = NotStarted,
                    wire = [], logger = []\<rparr>)"

text \<open>\<open>flushLoop\<close>, the body shared by both branches of its \<open>select\<close>.\<close>

definition flushIfNonEmpty :: "Client \<Rightarrow> panic + Client" where
  "flushIfNonEmpty c = (if length (buf c) > 0 then flushBuf c (length (buf c)) else Inr c)"

text \<open>\<open>flushLoop\<close>, \<open>case <-flushC\<close>: the ticker exists when the flush interval is positive.\<close>

definition flushLoop_timer :: "System \<Rightarrow> panic + System" where
  "flushLoop_timer s =
     (if flushLoop s = Running \<and> FlushInterval (options (client s)) > 0 then
        (case flushIfNonEmpty (client s) of
           Inl p \<Rightarrow> Inl p
         | Inr c \<Rightarrow> Inr (s\<lparr>client := c\<rparr>))
      else Inr s)"

text \<open>
  \<open>flushLoop\<close>, \<open>case <-c.shutdown\<close>: ready once the channel is closed. The final flush,
  then \<open>close(c.sendQueue)\<close>, then the loop returns.
\<close>

definition flushLoop_shutdown :: "System \<Rightarrow> panic + System" where
  "flushLoop_shutdown s =
     (if flushLoop s = Running \<and> shutdown (client s) then
        (case flushIfNonEmpty (client s) of
           Inl p \<Rightarrow> Inl p
         | Inr c \<Rightarrow>
             if sendQueueClosed c then Inl CloseOfClosedChannel
             else Inr (s\<lparr>client := c\<lparr>sendQueueClosed := True\<rparr>, flushLoop := Exited\<rparr>))
      else Inr s)"

text \<open>\<open>sendLoop\<close> at \<open>RECONNECT\<close>: \<open>net.Dial\<close> succeeds or fails, as the network decides.\<close>

definition sendLoop_dial :: "System \<Rightarrow> nat \<Rightarrow> bool \<Rightarrow> System" where
  "sendLoop_dial s i ok =
     (if i < length (sendLoops s) \<and> sendLoops s ! i = Connecting then
        (if ok then s\<lparr>sendLoops := (sendLoops s)[i := Ready]\<rparr>
         else s\<lparr>sendLoops := (sendLoops s)[i := Waiting],
                 logger := logger s @ [ErrorConnecting]\<rparr>)
      else s)"

text \<open>The non-blocking return of a buffer to the pool.\<close>

definition returnToPool :: "Client \<Rightarrow> bytes \<Rightarrow> Client" where
  "returnToPool c b =
     (if int (length (bufPool c)) < BufPoolCapacity (options c)
      then c\<lparr>bufPool := bufPool c @ [b]\<rparr> else c)"

text \<open>
  \<open>sendLoop\<close>, \<open>case buf, ok := <-c.sendQueue\<close>, taken at once: with a buffer queued the
  loop receives the oldest one; with the queue empty and closed it receives \<open>ok = false\<close>
  and returns; with the queue empty and open the receive cannot proceed (the loop then
  blocks, \<open>sendLoop_park\<close>). \<open>writeOk\<close> is whether \<open>sock.Write\<close> succeeds, as the network
  decides.
\<close>

definition sendLoop_receive :: "System \<Rightarrow> nat \<Rightarrow> bool \<Rightarrow> System" where
  "sendLoop_receive s i writeOk =
     (if i < length (sendLoops s) \<and> sendLoops s ! i = Ready then
        (case sendQueue (client s) of
           [] \<Rightarrow>
             if sendQueueClosed (client s) then
               s\<lparr>client := (client s)\<lparr>shutdownWg := shutdownWg (client s) - 1\<rparr>,
                 sendLoops := (sendLoops s)[i := Closed]\<rparr>
             else s
         | b # rest \<Rightarrow>
             (let c = (client s)\<lparr>sendQueue := rest\<rparr> in
              if length b > 0 then
                (if writeOk then
                   s\<lparr>client := returnToPool c b,
                     wire := wire s @ [take (length b - 1) b]\<rparr>
                 else
                   s\<lparr>client := c,
                     sendLoops := (sendLoops s)[i := Waiting],
                     logger := logger s @ [ErrorWriting]\<rparr>)
              else s\<lparr>client := returnToPool c b\<rparr>))
      else s)"

text \<open>
  \<open>sendLoop\<close> blocks in its \<open>select\<close>: the queue is empty and open, no case can proceed,
  and the loop joins the goroutines waiting to receive from the queue.
\<close>

definition sendLoop_park :: "System \<Rightarrow> nat \<Rightarrow> System" where
  "sendLoop_park s i =
     (if i < length (sendLoops s) \<and> sendLoops s ! i = Ready
         \<and> sendQueue (client s) = [] \<and> \<not> sendQueueClosed (client s)
      then s\<lparr>client := (client s)\<lparr>sendQueueRecvq := sendQueueRecvq (client s) @ [i]\<rparr>,
             sendLoops := (sendLoops s)[i := Parked]\<rparr>
      else s)"

text \<open>
  A blocked \<open>sendLoop\<close> is woken through \<open>case buf, ok := <-c.sendQueue\<close>: by a send that
  handed it a buffer, which it then writes and returns to the pool as above; or, while it
  still waits, by the close of the queue, with \<open>ok = false\<close>, and it returns.
\<close>

definition sendLoop_wakeup :: "System \<Rightarrow> nat \<Rightarrow> bool \<Rightarrow> System" where
  "sendLoop_wakeup s i writeOk =
     (if i < length (sendLoops s) \<and> sendLoops s ! i = Parked then
        (case map_of (sendQueueHanded (client s)) i of
           None \<Rightarrow>
             if sendQueueClosed (client s) \<and> i \<in> set (sendQueueRecvq (client s)) then
               s\<lparr>client := (client s)\<lparr>sendQueueRecvq := removeAll i (sendQueueRecvq (client s)),
                                       shutdownWg := shutdownWg (client s) - 1\<rparr>,
                 sendLoops := (sendLoops s)[i := Closed]\<rparr>
             else s
         | Some b \<Rightarrow>
             (let c = (client s)\<lparr>sendQueueHanded :=
                                    filter (\<lambda>h. fst h \<noteq> i) (sendQueueHanded (client s))\<rparr> in
              if length b > 0 then
                (if writeOk then
                   s\<lparr>client := returnToPool c b,
                     sendLoops := (sendLoops s)[i := Ready],
                     wire := wire s @ [take (length b - 1) b]\<rparr>
                 else
                   s\<lparr>client := c,
                     sendLoops := (sendLoops s)[i := Waiting],
                     logger := logger s @ [ErrorWriting]\<rparr>)
              else s\<lparr>client := returnToPool c b,
                     sendLoops := (sendLoops s)[i := Ready]\<rparr>))
      else s)"

text \<open>
  \<open>sendLoop\<close>, \<open>case <-reconnectC\<close>: the ticker exists when the interval is positive. The
  tick is taken by a loop at its \<open>select\<close>, or wakes a loop blocked in it that still
  waits on the open queue, which then waits on it no more (a loop that was handed a
  buffer or that waited when the queue was closed has been woken through the queue).
\<close>

definition sendLoop_reconnect :: "System \<Rightarrow> nat \<Rightarrow> System" where
  "sendLoop_reconnect s i =
     (if i < length (sendLoops s) \<and> sendLoops s ! i = Ready
         \<and> ReconnectInterval (options (client s)) > 0
      then s\<lparr>sendLoops := (sendLoops s)[i := Connecting]\<rparr>
      else if i < length (sendLoops s) \<and> sendLoops s ! i = Parked
         \<and> i \<in> set (sendQueueRecvq (client s)) \<and> \<not> sendQueueClosed (client s)
         \<and> ReconnectInterval (options (client s)) > 0
      then s\<lparr>client := (client s)\<lparr>sendQueueRecvq := removeAll i (sendQueueRecvq (client s))\<rparr>,
             sendLoops := (sendLoops s)[i := Connecting]\<rparr>
      else s)"

text \<open>\<open>sendLoop\<close> at \<open>WAIT\<close>: the sleep ends, \<open>goto RECONNECT\<close>.\<close>

definition sendLoop_wake :: "System \<Rightarrow> nat \<Rightarrow> System" where
  "sendLoop_wake s i =
     (if i < length (sendLoops s) \<and> sendLoops s ! i = Waiting
      then s\<lparr>sendLoops := (sendLoops s)[i := Connecting]\<rparr> else s)"

text \<open>\<open>reportLoop\<close>, \<open>case <-reportTicker.C\<close>.\<close>

definition reportLoop_timer :: "System \<Rightarrow> System" where
  "reportLoop_timer s =
     (if reportLoop s = Running then
        (let lostPeriod = lostPacketsPeriod (client s);
             s1 = s\<lparr>client := (client s)\<lparr>lostPacketsPeriod := 0\<rparr>\<rparr>
         in if sint lostPeriod > 0 then s1\<lparr>logger := logger s1 @ [PacketsLost lostPeriod]\<rparr>
            else s1)
      else s)"

text \<open>\<open>reportLoop\<close>, \<open>case <-c.shutdown\<close>: the loop returns, the deferred \<open>Done\<close> runs.\<close>

definition reportLoop_shutdown :: "System \<Rightarrow> System" where
  "reportLoop_shutdown s =
     (if reportLoop s = Running \<and> shutdown (client s) then
        s\<lparr>client := (client s)\<lparr>shutdownWg := shutdownWg (client s) - 1\<rparr>,
          reportLoop := Exited\<rparr>
      else s)"

text \<open>
  \<open>Close\<close> in two steps: \<open>close(c.shutdown)\<close>, which panics on a closed channel and
  otherwise leaves the caller in \<open>c.shutdownWg.Wait()\<close>; and the return of \<open>Wait\<close>, once
  the counter is zero, after which \<open>Close\<close> returns \<open>nil\<close>.
\<close>

definition Close_call :: "System \<Rightarrow> panic + System" where
  "Close_call s =
     (if shutdown (client s) then Inl CloseOfClosedChannel
      else Inr (s\<lparr>client := (client s)\<lparr>shutdown := True\<rparr>, closeCaller := Running\<rparr>))"

definition Close_return :: "System \<Rightarrow> System" where
  "Close_return s =
     (if closeCaller s = Running \<and> shutdownWg (client s) = 0
      then s\<lparr>closeCaller := Exited\<rparr> else s)"

section \<open>Runs\<close>

text \<open>
  The goroutines interleave at the granularity of the steps above: a metric-emission call
  (its lock sections; a call of two sections interleaved with other steps is the run in
  which \<open>Gauge stat 0\<close> and \<open>GaugeDelta stat v\<close>, or \<open>FGaugeDelta stat v\<close>, are called in
  its place), one iteration of a loop, a loop blocking in its \<open>select\<close> and being woken,
  the two halves of \<open>Close\<close>. An event that is not enabled leaves the system as it is.

  A send loop that has connected is at its \<open>select\<close>: \<open>Receive\<close> is the receive that
  proceeds at once, \<open>Park\<close> the loop blocking when nothing can be received, \<open>Wakeup\<close> the
  blocked loop resuming. A send made between \<open>Park\<close> and \<open>Wakeup\<close> finds the loop waiting;
  the run in which a send comes before the loop has blocked is the run in which it comes
  before \<open>Park\<close>.
\<close>

datatype event =
  Emit metric
  | FlushTimer
  | FlushShutdown
  | Dial nat bool
  | Receive nat bool
  | Park nat
  | Wakeup nat bool
  | ReconnectTimer nat
  | Wake nat
  | ReportTimer
  | ReportShutdown
  | CloseCall
  | CloseReturn

fun step :: "strconv \<Rightarrow> System \<Rightarrow> event \<Rightarrow> panic + System" where
  "step sc s (Emit m) =
     (case emit sc (client s) m of Inl p \<Rightarrow> Inl p | Inr c \<Rightarrow> Inr (s\<lparr>client := c\<rparr>))"
| "step sc s FlushTimer = flushLoop_timer s"
| "step sc s FlushShutdown = flushLoop_shutdown s"
| "step sc s (Dial i ok) = Inr (sendLoop_dial s i ok)"
| "step sc s (Receive i writeOk) = Inr (sendLoop_receive s i writeOk)"
| "step sc s (Park i) = Inr (sendLoop_park s i)"
| "step sc s (Wakeup i writeOk) = Inr (sendLoop_wakeup s i writeOk)"
| "step sc s (ReconnectTimer i) = Inr (sendLoop_reconnect s i)"
| "step sc s (Wake i) = Inr (sendLoop_wake s i)"
| "step sc s ReportTimer = Inr (reportLoop_timer s)"
| "step sc s ReportShutdown = Inr (reportLoop_shutdown s)"
| "step sc s CloseCall = Close_call s"
| "step sc s CloseReturn = Inr (Close_return s)"

fun run :: "strconv \<Rightarrow> System \<Rightarrow> event list \<Rightarrow> panic + System" where
  "run sc s [] = Inr s"
| "run sc s (e # es) = (case step sc s e of Inl p \<Rightarrow> Inl p | Inr s1 \<Rightarrow> run sc s1 es)"

section \<open>The specification's view of an emission\<close>

text \<open>
  The specification's \<open>append(line)\<close>: the line is appended to the buffer, then the
  overflow check runs with the length the buffer had before.
\<close>

definition appendLine :: "Client \<Rightarrow> bytes \<Rightarrow> panic + Client" where
  "appendLine c line = checkBuf (c\<lparr>buf := buf c @ line\<rparr>) (length (buf c))"

fun appendLines :: "Client \<Rightarrow> bytes list \<Rightarrow> panic + Client" where
  "appendLines c [] = Inr c"
| "appendLines c (l # ls) =
     (case appendLine c l of Inl p \<Rightarrow> Inl p | Inr c1 \<Rightarrow> appendLines c1 ls)"

text \<open>
  The specification's metric line, \<open><prefix><name>:<value><type-suffix>\<close> and a newline.
\<close>

definition metricLine :: "ClientOptions \<Rightarrow> string \<Rightarrow> string \<Rightarrow> string \<Rightarrow> bytes" where
  "metricLine opts stat v suffix = MetricPrefix opts @ stat @ '':'' @ v @ suffix @ [CHR 0x0A]"

text \<open>The lines the specification gives for each call, in order.\<close>

fun metricLines :: "strconv \<Rightarrow> ClientOptions \<Rightarrow> metric \<Rightarrow> bytes list" where
  "metricLines sc opts (MIncr stat n) =
     (if n = 0 then [] else [metricLine opts stat (formatInt n) ''|c''])"
| "metricLines sc opts (MDecr stat n) =
     (if n = 0 then [] else [metricLine opts stat (formatInt (- n)) ''|c''])"
| "metricLines sc opts (MTiming stat d) = [metricLine opts stat (formatInt d) ''|ms'']"
| "metricLines sc opts (MPrecisionTiming stat d) =
     [metricLine opts stat (formatFloat sc (durationMs sc d)) ''|ms'']"
| "metricLines sc opts (MGauge stat v) =
     (if sint v < 0
      then [metricLine opts stat ''0'' ''|g'', metricLine opts stat (formatInt v) ''|g'']
      else [metricLine opts stat (formatInt v) ''|g''])"
| "metricLines sc opts (MGaugeDelta stat v) =
     (if sint v < 0 then [metricLine opts stat (formatInt v) ''|g'']
      else [metricLine opts stat (CHR ''+'' # formatInt v) ''|g''])"
| "metricLines sc opts (MFGauge stat v) =
     (if f64_lt_zero v
      then [metricLine opts stat ''0'' ''|g'', metricLine opts stat (formatFloat sc v) ''|g'']
      else [metricLine opts stat (formatFloat sc v) ''|g''])"
| "metricLines sc opts (MFGaugeDelta stat v) =
     (if f64_lt_zero v then [metricLine opts stat (formatFloat sc v) ''|g'']
      else [metricLine opts stat (CHR ''+'' # formatFloat sc v) ''|g''])"
| "metricLines sc opts (MSetAdd stat v) = [metricLine opts stat v ''|s'']"

text \<open>The lines emitted by the metric-emission calls of a run, in order.\<close>

fun eventLines :: "strconv \<Rightarrow> ClientOptions \<Rightarrow> event \<Rightarrow> bytes list" where
  "eventLines sc opts (Emit m) = metricLines sc opts m"
| "eventLines sc opts e = []"

definition emittedLines :: "strconv \<Rightarrow> ClientOptions \<Rightarrow> event list \<Rightarrow> bytes list" where
  "emittedLines sc opts es = concat (map (eventLines sc opts) es)"

text \<open>Every line emitted in the run is at most \<open>n\<close> bytes long.\<close>

definition linesWithin :: "strconv \<Rightarrow> ClientOptions \<Rightarrow> int \<Rightarrow> event list \<Rightarrow> bool" where
  "linesWithin sc opts n es = list_all (\<lambda>l. int (length l) \<le> n) (emittedLines sc opts es)"

text \<open>The events that can call \<open>flushBuf\<close>.\<close>

fun flushes :: "event \<Rightarrow> bool" where
  "flushes (Emit m) = True"
| "flushes FlushTimer = True"
| "flushes FlushShutdown = True"
| "flushes e = False"


text \<open>
  The wire payload of the specification: the lines, each without its newline, joined by
  newlines, with no newline at the end.
\<close>

fun joinLines :: "bytes list \<Rightarrow> bytes" where
  "joinLines [] = []"
| "joinLines [l] = l"
| "joinLines (l # m # ls) = l @ [CHR 0x0A] @ joinLines (m # ls)"

section \<open>Sample clients\<close>

text \<open>
  Concrete inputs on which the theorems below are exercised. \<open>sampleDefaults\<close> stands for
  the \<open>Default...\<close> constants; \<open>sampleStrconv\<close> formats the three floating-point values
  that the repository's tests use (\<open>33.5\<close>, \<open>-533.3\<close> and \<open>157.356\<close>, the latter being
  157356 microseconds in milliseconds).
\<close>

definition sampleDefaults :: ClientOptions where
  "sampleDefaults =
     \<lparr>Addr = [], MetricPrefix = [], MaxPacketSize = 1432, FlushInterval = 1000000000,
      ReconnectInterval = 0, ReportInterval = 60000000000, RetryTimeout = 5000000000,
      BufPoolCapacity = 20, SendQueueCapacity = 10, SendLoopCount = 1\<rparr>"

definition sampleStrconv :: strconv where
  "sampleStrconv =
     \<lparr>formatFloat = (\<lambda>w. if w = 0x4040C00000000000 then ''33.5''
                          else if w = 0xC080AA6666666666 then ''-533.3''
                          else if w = 0x4063AB645A1CAC08 then ''157.356''
                          else ''0''),
      durationMs = (\<lambda>d. if d = 157356000 then 0x4063AB645A1CAC08 else 0)\<rparr>"

text \<open>The client of \<open>TestCommands\<close>: prefix \<open>foo.\<close>, packets of at most 1400 bytes.\<close>

definition testClient :: Client where
  "testClient =
     \<lparr>options = sampleDefaults\<lparr>MetricPrefix := ''foo.'', MaxPacketSize := 1400,
                                 ReconnectInterval := 10000000000\<rparr>,
      bufPool = [], buf = [], bufSize = 2456, sendQueue = [], sendQueueClosed = False,
      sendQueueRecvq = [], sendQueueHanded = [],
      shutdown = False, shutdownWg = 2, lostPacketsPeriod = 0, lostPacketsOverall = 0\<rparr>"

text \<open>
  A client with packets of at most 16 bytes and a dispatch queue of capacity 2, with one
  line in its buffer.
\<close>

definition smallClient :: Client where
  "smallClient =
     \<lparr>options = sampleDefaults\<lparr>MaxPacketSize := 16, SendQueueCapacity := 2\<rparr>,
      bufPool = [], buf = ''a:1|c'' @ [CHR 0x0A], bufSize = 2456, sendQueue = [],
      sendQueueClosed = False, sendQueueRecvq = [], sendQueueHanded = [],
      shutdown = False, shutdownWg = 2,
      lostPacketsPeriod = 0, lostPacketsOverall = 0\<rparr>"

text \<open>Options: packets of at most \<open>n\<close> bytes.\<close>

definition MaxPacketSizeOption :: "int \<Rightarrow> ClientOptions \<Rightarrow> ClientOptions" where
  "MaxPacketSizeOption n opts = opts\<lparr>MaxPacketSize := n\<rparr>"

definition SendLoopCountOption :: "int \<Rightarrow> ClientOptions \<Rightarrow> ClientOptions" where
  "SendLoopCountOption n opts = opts\<lparr>SendLoopCount := n\<rparr>"

definition SendQueueCapacityOption :: "int \<Rightarrow> ClientOptions \<Rightarrow> ClientOptions" where
  "SendQueueCapacityOption n opts = opts\<lparr>SendQueueCapacity := n\<rparr>"

text \<open>The same client with its dispatch queue full.\<close>

definition fullClient :: Client where
  "fullClient = smallClient\<lparr>sendQueue := [''x:1|c'' @ [CHR 0x0A], ''y:2|c'' @ [CHR 0x0A]]\<rparr>"


text \<open>A client with its loops running: one send loop, connected.\<close>

definition systemOf :: "Client \<Rightarrow> System" where
  "systemOf c =
     \<lparr>client = c, flushLoop = Running, sendLoops = [Ready], reportLoop = Running,
      closeCaller = NotStarted, wire = [], logger = []\<rparr>"

text \<open>
  A client made by \<open>NewClient\<close> with packets of at most 5 bytes and a dispatch queue of
  capacity 0: every line overflows, and a flush is lost unless a send loop waits for it.
\<close>

definition lossyNew :: "panic + System" where
  "lossyNew =
     NewClient sampleDefaults ''127.0.0.1:8125''
       [MaxPacketSizeOption 5, SendQueueCapacityOption 0]"

definition MetricPrefixOption :: "string \<Rightarrow> ClientOptions \<Rightarrow> ClientOptions" where
  "MetricPrefixOption p opts = opts\<lparr>MetricPrefix := p\<rparr>"

text \<open>A client made by \<open>NewClient\<close> with packets of at most 5 bytes.\<close>

definition tinyNew :: "panic + System" where
  "tinyNew = NewClient sampleDefaults ''127.0.0.1:8125'' [MaxPacketSizeOption 5]"

text \<open>A client made by \<open>NewClient\<close> with packets of at most 16 bytes.\<close>

definition smallNew :: "panic + System" where
  "smallNew = NewClient sampleDefaults ''127.0.0.1:8125'' [MaxPacketSizeOption 16]"

text \<open>The client that \<open>TestCommands\<close> makes.\<close>

definition testNew :: "panic + System" where
  "testNew =
     NewClient sampleDefaults ''127.0.0.1:8125''
       [MetricPrefixOption ''foo.'', MaxPacketSizeOption 1400]"

text \<open>
  A client made by \<open>NewClient\<close> with packets of at most 16 bytes and a dispatch queue of
  capacity 1.
\<close>

definition cappedNew :: "panic + System" where
  "cappedNew =
     NewClient sampleDefaults ''127.0.0.1:8125''
       [MaxPacketSizeOption 16, SendQueueCapacityOption 1]"

text \<open>A client made by \<open>NewClient\<close> with a dispatch queue of capacity 0.\<close>

definition unbufferedNew :: "panic + System" where
  "unbufferedNew = NewClient sampleDefaults ''127.0.0.1:8125'' [SendQueueCapacityOption 0]"



section \<open>Shutdown accounting\<close>



section \<open>Emission as appending lines\<close>

lemma formatInt_zero: "formatInt 0 = ''0''"
  by (simp add: formatInt_def formatUint.simps)

lemma flushBuf_options: "flushBuf c n = Inr c' \<Longrightarrow> options c' = options c"
  by (auto simp: flushBuf_def Let_def split: list.splits if_splits)

lemma checkBuf_options: "checkBuf c n = Inr c' \<Longrightarrow> options c' = options c"
  by (auto simp: checkBuf_def dest: flushBuf_options split: if_splits)

lemma appendLine_options: "appendLine c l = Inr c' \<Longrightarrow> options c' = options c"
  by (auto simp: appendLine_def dest: checkBuf_options)

lemma igauge_appendLine:
  "igauge c stat sign v = appendLine c (metricLine (options c) stat (sign @ formatInt v) ''|g'')"
  by (simp add: igauge_def appendLine_def metricLine_def Let_def)

lemma fgauge_appendLine:
  "fgauge sc c stat sign v =
   appendLine c (metricLine (options c) stat (sign @ formatFloat sc v) ''|g'')"
  by (simp add: fgauge_def appendLine_def metricLine_def Let_def)

lemma appendLines_single: "appendLines c [l] = appendLine c l"
  by (cases "appendLine c l") simp_all

lemma appendLines_pair:
  "appendLines c [l1, l2] =
   (case appendLine c l1 of Inl p \<Rightarrow> Inl p | Inr c1 \<Rightarrow> appendLine c1 l2)"
proof (cases "appendLine c l1")
  case (Inl p)
  then show ?thesis by simp
next
  case (Inr b)
  then have "appendLines c [l1, l2] = appendLines b [l2]" by simp
  with Inr show ?thesis by (simp only: appendLines_single sum.case)
qed

text \<open>
  Every metric-emission call of the source is the specification's \<open>append\<close> of the lines
  that the specification gives for it.
\<close>

lemma emit_appendLines: "emit sc c m = appendLines c (metricLines sc (options c) m)"
proof (cases m)
  case (MIncr stat n)
  then show ?thesis
    by (simp add: appendLines_single del: appendLines.simps)
       (simp add: Incr_def appendLine_def metricLine_def Let_def)
next
  case (MDecr stat n)
  then show ?thesis
    by (simp add: appendLines_single del: appendLines.simps)
       (simp add: Decr_def Incr_def appendLine_def metricLine_def Let_def)
next
  case (MTiming stat d)
  then show ?thesis
    by (simp add: appendLines_single del: appendLines.simps)
       (simp add: Timing_def appendLine_def metricLine_def Let_def)
next
  case (MPrecisionTiming stat d)
  then show ?thesis
    by (simp add: appendLines_single del: appendLines.simps)
       (simp add: PrecisionTiming_def appendLine_def metricLine_def Let_def)
next
  case (MGauge stat v)
  show ?thesis
  proof (cases "sint v < 0")
    case True
    have "Gauge c stat v =
          appendLines c [metricLine (options c) stat ''0'' ''|g'',
                         metricLine (options c) stat (formatInt v) ''|g'']"
      unfolding appendLines_pair using True
      by (cases "appendLine c (metricLine (options c) stat ''0'' ''|g'')")
         (simp_all add: Gauge_def igauge_appendLine formatInt_zero appendLine_options)
    with True MGauge show ?thesis by simp
  next
    case False
    with MGauge show ?thesis
      by (simp add: appendLines_single del: appendLines.simps)
         (simp add: Gauge_def igauge_appendLine)
  qed
next
  case (MGaugeDelta stat v)
  then show ?thesis
    by (simp add: appendLines_single del: appendLines.simps)
       (simp add: GaugeDelta_def igauge_appendLine)
next
  case (MFGauge stat v)
  show ?thesis
  proof (cases "f64_lt_zero v")
    case True
    have "FGauge sc c stat v =
          appendLines c [metricLine (options c) stat ''0'' ''|g'',
                         metricLine (options c) stat (formatFloat sc v) ''|g'']"
      unfolding appendLines_pair using True
      by (cases "appendLine c (metricLine (options c) stat ''0'' ''|g'')")
         (simp_all add: FGauge_def igauge_appendLine fgauge_appendLine formatInt_zero
            appendLine_options)
    with True MFGauge show ?thesis by simp
  next
    case False
    with MFGauge show ?thesis
      by (simp add: appendLines_single del: appendLines.simps)
         (simp add: FGauge_def fgauge_appendLine)
  qed
next
  case (MFGaugeDelta stat v)
  then show ?thesis
    by (simp add: appendLines_single del: appendLines.simps)
       (simp add: FGaugeDelta_def fgauge_appendLine)
next
  case (MSetAdd stat v)
  then show ?thesis
    by (simp add: appendLines_single del: appendLines.simps)
       (simp add: SetAdd_def appendLine_def metricLine_def Let_def)
qed

lemma appendLine_fits:
  "int (length (buf c) + length l) \<le> MaxPacketSize (options c) \<Longrightarrow>
   appendLine c l = Inr (c\<lparr>buf := buf c @ l\<rparr>)"
  by (simp add: appendLine_def checkBuf_def)

lemma appendLines_fit:
  "int (length (buf c) + length (concat ls)) \<le> MaxPacketSize (options c) \<Longrightarrow>
   appendLines c ls = Inr (c\<lparr>buf := buf c @ concat ls\<rparr>)"
proof (induction ls arbitrary: c)
  case Nil
  then show ?case by simp
next
  case (Cons l ls)
  then have "appendLine c l = Inr (c\<lparr>buf := buf c @ l\<rparr>)"
    by (intro appendLine_fits) simp
  moreover have "appendLines (c\<lparr>buf := buf c @ l\<rparr>) ls
      = Inr (c\<lparr>buf := buf c @ l\<rparr>\<lparr>buf := buf (c\<lparr>buf := buf c @ l\<rparr>) @ concat ls\<rparr>)"
    using Cons.prems by (intro Cons.IH) (simp add: add.assoc)
  ultimately show ?case by simp
qed

text \<open>The decimal numeral of a natural number is a non-empty sequence of digits.\<close>

lemma formatUint_digits: "set (formatUint n) \<subseteq> set ''0123456789''"
proof (induction n rule: formatUint.induct)
  case (1 n)
  have d: "''0123456789'' ! k \<in> set ''0123456789''" if "k < 10" for k
    using that by (intro nth_mem) simp
  show ?case
  proof (cases "n < 10")
    case True
    then show ?thesis using d [of n] by (subst formatUint.simps) simp
  next
    case False
    then show ?thesis using 1 d [of "n mod 10"] by (subst formatUint.simps) simp
  qed
qed

lemma formatUint_nonempty: "formatUint n \<noteq> []"
  by (subst formatUint.simps) simp

section \<open>Zero-valued counter increments\<close>

text \<open>
  C9. For every stat, \<open>Incr stat 0\<close> and \<open>Decr stat 0\<close> append no line and return the
  client exactly as it was: buffer, pool, dispatch queue and both loss counters are
  unchanged, and so is the rest of the system when the call is a step of a run.
\<close>

theorem zero_increment_is_noop:
  "Incr c stat 0 = Inr c \<and> Decr c stat 0 = Inr c
   \<and> step sc s (Emit (MIncr stat 0)) = Inr s \<and> step sc s (Emit (MDecr stat 0)) = Inr s"
  by (simp add: Incr_def Decr_def)

section \<open>Gauges\<close>

text \<open>
  C6. For every stat and every value \<open>v < 0\<close>, \<open>Gauge stat v\<close> (and \<open>FGauge\<close> for a
  float \<open>v < 0\<close>) appends exactly two lines in order: the reset line with value \<open>0\<close>, then
  the gauge line with the literal negative value (for an integer, a minus sign and the
  digits of \<open>-v\<close>). For \<open>v \<ge> 0\<close> (any \<open>v\<close> that is not below zero) exactly one gauge line
  with the literal value is appended. When the two lines fit into the packet the buffer
  grows by exactly these bytes and nothing else changes.
\<close>

theorem negative_gauge_two_lines:
  "Gauge c stat v =
     appendLines c
       (if sint v < 0
        then [metricLine (options c) stat ''0'' ''|g'',
              metricLine (options c) stat (formatInt v) ''|g'']
        else [metricLine (options c) stat (formatInt v) ''|g''])
   \<and> FGauge sc c stat fv =
     appendLines c
       (if f64_lt_zero fv
        then [metricLine (options c) stat ''0'' ''|g'',
              metricLine (options c) stat (formatFloat sc fv) ''|g'']
        else [metricLine (options c) stat (formatFloat sc fv) ''|g''])
   \<and> (sint v < 0 \<longrightarrow> formatInt v = CHR ''-'' # formatUint (nat (- sint v)))
   \<and> (sint v < 0
        \<and> int (length (buf c) + length (metricLine (options c) stat ''0'' ''|g''
                  @ metricLine (options c) stat (formatInt v) ''|g''))
           \<le> MaxPacketSize (options c) \<longrightarrow>
      Gauge c stat v =
        Inr (c\<lparr>buf := buf c @ MetricPrefix (options c) @ stat @ '':0|g'' @ [CHR 0x0A]
                          @ MetricPrefix (options c) @ stat @ '':'' @ formatInt v
                          @ ''|g'' @ [CHR 0x0A]\<rparr>))
   \<and> (f64_lt_zero fv
        \<and> int (length (buf c) + length (metricLine (options c) stat ''0'' ''|g''
                  @ metricLine (options c) stat (formatFloat sc fv) ''|g''))
           \<le> MaxPacketSize (options c) \<longrightarrow>
      FGauge sc c stat fv =
        Inr (c\<lparr>buf := buf c @ MetricPrefix (options c) @ stat @ '':0|g'' @ [CHR 0x0A]
                          @ MetricPrefix (options c) @ stat @ '':'' @ formatFloat sc fv
                          @ ''|g'' @ [CHR 0x0A]\<rparr>))"
proof -
  have g: "Gauge c stat v = appendLines c (metricLines sc (options c) (MGauge stat v))"
    using emit_appendLines [of sc c "MGauge stat v"] by simp
  have f: "FGauge sc c stat fv = appendLines c (metricLines sc (options c) (MFGauge stat fv))"
    using emit_appendLines [of sc c "MFGauge stat fv"] by simp
  have g2: "Gauge c stat v = Inr (c\<lparr>buf := buf c @ concat (metricLines sc (options c) (MGauge stat v))\<rparr>)"
    if "int (length (buf c) + length (concat (metricLines sc (options c) (MGauge stat v)))) \<le> MaxPacketSize (options c)"
    unfolding g using that by (rule appendLines_fit)
  have f2: "FGauge sc c stat fv = Inr (c\<lparr>buf := buf c @ concat (metricLines sc (options c) (MFGauge stat fv))\<rparr>)"
    if "int (length (buf c) + length (concat (metricLines sc (options c) (MFGauge stat fv)))) \<le> MaxPacketSize (options c)"
    unfolding f using that by (rule appendLines_fit)
  show ?thesis
  proof (intro conjI impI)
    show "Gauge c stat v = appendLines c
       (if sint v < 0
        then [metricLine (options c) stat ''0'' ''|g'',
              metricLine (options c) stat (formatInt v) ''|g'']
        else [metricLine (options c) stat (formatInt v) ''|g''])"
      using g by simp
    show "FGauge sc c stat fv = appendLines c
       (if f64_lt_zero fv
        then [metricLine (options c) stat ''0'' ''|g'',
              metricLine (options c) stat (formatFloat sc fv) ''|g'']
        else [metricLine (options c) stat (formatFloat sc fv) ''|g''])"
      using f by simp
    show "formatInt v = CHR ''-'' # formatUint (nat (- sint v))" if "sint v < 0"
      using that by (simp add: formatInt_def)
  next
    assume a: "sint v < 0
        \<and> int (length (buf c) + length (metricLine (options c) stat ''0'' ''|g''
                  @ metricLine (options c) stat (formatInt v) ''|g''))
           \<le> MaxPacketSize (options c)"
    then show "Gauge c stat v =
        Inr (c\<lparr>buf := buf c @ MetricPrefix (options c) @ stat @ '':0|g'' @ [CHR 0x0A]
                          @ MetricPrefix (options c) @ stat @ '':'' @ formatInt v
                          @ ''|g'' @ [CHR 0x0A]\<rparr>)"
      using g2 by (simp add: metricLine_def)
  next
    assume a: "f64_lt_zero fv
        \<and> int (length (buf c) + length (metricLine (options c) stat ''0'' ''|g''
                  @ metricLine (options c) stat (formatFloat sc fv) ''|g''))
           \<le> MaxPacketSize (options c)"
    then show "FGauge sc c stat fv =
        Inr (c\<lparr>buf := buf c @ MetricPrefix (options c) @ stat @ '':0|g'' @ [CHR 0x0A]
                          @ MetricPrefix (options c) @ stat @ '':'' @ formatFloat sc fv
                          @ ''|g'' @ [CHR 0x0A]\<rparr>)"
      using f2 by (simp add: metricLine_def)
  qed
qed

text \<open>The two negative gauges of \<open>TestCommands\<close>.\<close>

theorem negative_gauge_two_lines_witness:
  "Gauge testClient ''req.clients'' (- 533) =
     Inr (testClient\<lparr>buf := ''foo.req.clients:0|g'' @ [CHR 0x0A]
                            @ ''foo.req.clients:-533|g'' @ [CHR 0x0A]\<rparr>)
   \<and> FGauge sampleStrconv testClient ''req.clients'' 0xC080AA6666666666 =
     Inr (testClient\<lparr>buf := ''foo.req.clients:0|g'' @ [CHR 0x0A]
                            @ ''foo.req.clients:-533.3|g'' @ [CHR 0x0A]\<rparr>)"
proof -
  note t = negative_gauge_two_lines
    [of testClient "''req.clients''" "- 533" sampleStrconv "0xC080AA6666666666"]
  have v: "formatInt (- 533) = ''-533''"
    by (simp add: formatInt_def formatUint.simps)
  have o: "MetricPrefix (options testClient) = ''foo.''" "MaxPacketSize (options testClient) = 1400"
    "buf testClient = []"
    by (simp_all add: testClient_def)
  have f: "formatFloat sampleStrconv 0xC080AA6666666666 = ''-533.3''"
    by (simp add: sampleStrconv_def)
  have g: "Gauge testClient ''req.clients'' (- 533) =
        Inr (testClient\<lparr>buf := buf testClient @ MetricPrefix (options testClient)
             @ ''req.clients'' @ '':0|g'' @ [CHR 0x0A] @ MetricPrefix (options testClient)
             @ ''req.clients'' @ '':'' @ formatInt (- 533) @ ''|g'' @ [CHR 0x0A]\<rparr>)"
    by (rule t [THEN conjunct2, THEN conjunct2, THEN conjunct2, THEN conjunct1, THEN mp])
       (simp add: o v metricLine_def)
  have h: "FGauge sampleStrconv testClient ''req.clients'' 0xC080AA6666666666 =
        Inr (testClient\<lparr>buf := buf testClient @ MetricPrefix (options testClient)
             @ ''req.clients'' @ '':0|g'' @ [CHR 0x0A] @ MetricPrefix (options testClient)
             @ ''req.clients'' @ '':'' @ formatFloat sampleStrconv 0xC080AA6666666666
             @ ''|g'' @ [CHR 0x0A]\<rparr>)"
    by (rule t [THEN conjunct2, THEN conjunct2, THEN conjunct2, THEN conjunct2, THEN mp])
       (simp add: o f metricLine_def f64_lt_zero_def)
  show ?thesis using g h by (simp add: o v f)
qed

text \<open>
  C7. For every stat, \<open>GaugeDelta stat v\<close> (and \<open>FGaugeDelta\<close> for a float) appends
  exactly one gauge line: for \<open>v \<ge> 0\<close> (any \<open>v\<close> that is not below zero) the value is the
  literal value prefixed with \<open>+\<close>, for \<open>v < 0\<close> it is the natural negative decimal, a
  minus sign followed by digits only, with no further sign. When the line fits into the
  packet the buffer grows by exactly these bytes and nothing else changes.
\<close>

theorem gauge_delta_sign:
  "GaugeDelta c stat v =
     appendLines c
       [metricLine (options c) stat
          (if sint v < 0 then formatInt v else CHR ''+'' # formatInt v) ''|g'']
   \<and> FGaugeDelta sc c stat fv =
     appendLines c
       [metricLine (options c) stat
          (if f64_lt_zero fv then formatFloat sc fv else CHR ''+'' # formatFloat sc fv) ''|g'']
   \<and> formatInt v =
       (if sint v < 0 then CHR ''-'' # formatUint (nat (- sint v))
        else formatUint (nat (sint v)))
   \<and> set (formatUint n) \<subseteq> set ''0123456789'' \<and> formatUint n \<noteq> []
   \<and> (int (length (buf c) + length (metricLine (options c) stat
            (if sint v < 0 then formatInt v else CHR ''+'' # formatInt v) ''|g''))
         \<le> MaxPacketSize (options c) \<longrightarrow>
      GaugeDelta c stat v =
        Inr (c\<lparr>buf := buf c @ MetricPrefix (options c) @ stat @ '':''
                    @ (if sint v < 0 then formatInt v else CHR ''+'' # formatInt v)
                    @ ''|g'' @ [CHR 0x0A]\<rparr>))
   \<and> (int (length (buf c) + length (metricLine (options c) stat
            (if f64_lt_zero fv then formatFloat sc fv else CHR ''+'' # formatFloat sc fv)
            ''|g''))
         \<le> MaxPacketSize (options c) \<longrightarrow>
      FGaugeDelta sc c stat fv =
        Inr (c\<lparr>buf := buf c @ MetricPrefix (options c) @ stat @ '':''
                    @ (if f64_lt_zero fv then formatFloat sc fv
                       else CHR ''+'' # formatFloat sc fv)
                    @ ''|g'' @ [CHR 0x0A]\<rparr>))"
proof -
  have g: "GaugeDelta c stat v = appendLines c (metricLines sc (options c) (MGaugeDelta stat v))"
    using emit_appendLines [of sc c "MGaugeDelta stat v"] by simp
  have f: "FGaugeDelta sc c stat fv
           = appendLines c (metricLines sc (options c) (MFGaugeDelta stat fv))"
    using emit_appendLines [of sc c "MFGaugeDelta stat fv"] by simp
  have g2: "GaugeDelta c stat v
      = Inr (c\<lparr>buf := buf c @ concat (metricLines sc (options c) (MGaugeDelta stat v))\<rparr>)"
    if "int (length (buf c) + length (concat (metricLines sc (options c) (MGaugeDelta stat v))))
        \<le> MaxPacketSize (options c)"
    unfolding g using that by (rule appendLines_fit)
  have f2: "FGaugeDelta sc c stat fv
      = Inr (c\<lparr>buf := buf c @ concat (metricLines sc (options c) (MFGaugeDelta stat fv))\<rparr>)"
    if "int (length (buf c) + length (concat (metricLines sc (options c) (MFGaugeDelta stat fv))))
        \<le> MaxPacketSize (options c)"
    unfolding f using that by (rule appendLines_fit)
  have c1: "GaugeDelta c stat v =
     appendLines c
       [metricLine (options c) stat
          (if sint v < 0 then formatInt v else CHR ''+'' # formatInt v) ''|g'']"
    using g by simp
  have c2: "FGaugeDelta sc c stat fv =
     appendLines c
       [metricLine (options c) stat
          (if f64_lt_zero fv then formatFloat sc fv else CHR ''+'' # formatFloat sc fv) ''|g'']"
    using f by simp
  have c3: "formatInt v =
       (if sint v < 0 then CHR ''-'' # formatUint (nat (- sint v))
        else formatUint (nat (sint v)))"
    by (simp add: formatInt_def)
  have c5: "GaugeDelta c stat v =
        Inr (c\<lparr>buf := buf c @ MetricPrefix (options c) @ stat @ '':''
                    @ (if sint v < 0 then formatInt v else CHR ''+'' # formatInt v)
                    @ ''|g'' @ [CHR 0x0A]\<rparr>)"
    if "int (length (buf c) + length (metricLine (options c) stat
            (if sint v < 0 then formatInt v else CHR ''+'' # formatInt v) ''|g''))
         \<le> MaxPacketSize (options c)"
    using g2 that by (simp add: metricLine_def split: if_splits)
  have c6: "FGaugeDelta sc c stat fv =
        Inr (c\<lparr>buf := buf c @ MetricPrefix (options c) @ stat @ '':''
                    @ (if f64_lt_zero fv then formatFloat sc fv
                       else CHR ''+'' # formatFloat sc fv)
                    @ ''|g'' @ [CHR 0x0A]\<rparr>)"
    if "int (length (buf c) + length (metricLine (options c) stat
            (if f64_lt_zero fv then formatFloat sc fv else CHR ''+'' # formatFloat sc fv)
            ''|g''))
         \<le> MaxPacketSize (options c)"
    using f2 that by (simp add: metricLine_def split: if_splits)
  from c1 c2 c3 c5 c6 formatUint_digits [of n] formatUint_nonempty [of n]
  show ?thesis by blast
qed

text \<open>The four gauge deltas of \<open>TestCommands\<close>.\<close>

theorem gauge_delta_sign_witness:
  "GaugeDelta testClient ''req.clients'' 33 =
     Inr (testClient\<lparr>buf := ''foo.req.clients:+33|g'' @ [CHR 0x0A]\<rparr>)
   \<and> GaugeDelta testClient ''req.clients'' (- 533) =
     Inr (testClient\<lparr>buf := ''foo.req.clients:-533|g'' @ [CHR 0x0A]\<rparr>)
   \<and> FGaugeDelta sampleStrconv testClient ''req.clients'' 0x4040C00000000000 =
     Inr (testClient\<lparr>buf := ''foo.req.clients:+33.5|g'' @ [CHR 0x0A]\<rparr>)
   \<and> FGaugeDelta sampleStrconv testClient ''req.clients'' 0xC080AA6666666666 =
     Inr (testClient\<lparr>buf := ''foo.req.clients:-533.3|g'' @ [CHR 0x0A]\<rparr>)"
proof -
  note pos = gauge_delta_sign
    [of testClient "''req.clients''" 33 sampleStrconv "0x4040C00000000000" 0]
  note neg = gauge_delta_sign
    [of testClient "''req.clients''" "- 533" sampleStrconv "0xC080AA6666666666" 0]
  have v: "formatInt (- 533) = ''-533''" "formatInt 33 = ''33''"
    by (simp_all add: formatInt_def formatUint.simps)
  have o: "MetricPrefix (options testClient) = ''foo.''"
    "MaxPacketSize (options testClient) = 1400" "buf testClient = []"
    by (simp_all add: testClient_def)
  have f: "formatFloat sampleStrconv 0xC080AA6666666666 = ''-533.3''"
    "formatFloat sampleStrconv 0x4040C00000000000 = ''33.5''"
    by (simp_all add: sampleStrconv_def)
  have z: "f64_lt_zero 0xC080AA6666666666" "\<not> f64_lt_zero 0x4040C00000000000"
    by (simp_all add: f64_lt_zero_def)
  have s: "sint (- 533 :: int64) < 0" "\<not> sint (33 :: int64) < 0"
    by simp_all
  have a: "GaugeDelta testClient ''req.clients'' 33 =
     Inr (testClient\<lparr>buf := ''foo.req.clients:+33|g'' @ [CHR 0x0A]\<rparr>)"
    using pos [THEN conjunct2, THEN conjunct2, THEN conjunct2, THEN conjunct2,
               THEN conjunct2, THEN conjunct1]
    by (simp add: o v s metricLine_def)
  have b: "GaugeDelta testClient ''req.clients'' (- 533) =
     Inr (testClient\<lparr>buf := ''foo.req.clients:-533|g'' @ [CHR 0x0A]\<rparr>)"
    using neg [THEN conjunct2, THEN conjunct2, THEN conjunct2, THEN conjunct2,
               THEN conjunct2, THEN conjunct1]
    by (simp add: o v s metricLine_def)
  have c: "FGaugeDelta sampleStrconv testClient ''req.clients'' 0x4040C00000000000 =
     Inr (testClient\<lparr>buf := ''foo.req.clients:+33.5|g'' @ [CHR 0x0A]\<rparr>)"
    using pos [THEN conjunct2, THEN conjunct2, THEN conjunct2, THEN conjunct2,
               THEN conjunct2, THEN conjunct2]
    by (simp add: o f z metricLine_def)
  have d: "FGaugeDelta sampleStrconv testClient ''req.clients'' 0xC080AA6666666666 =
     Inr (testClient\<lparr>buf := ''foo.req.clients:-533.3|g'' @ [CHR 0x0A]\<rparr>)"
    using neg [THEN conjunct2, THEN conjunct2, THEN conjunct2, THEN conjunct2,
               THEN conjunct2, THEN conjunct2]
    by (simp add: o f z metricLine_def)
  from a b c d show ?thesis by simp
qed

section \<open>Overflow and dispatch\<close>

text \<open>The definitions that evaluate a run on a concrete client.\<close>

lemmas eval_defs = NewClient_def sampleDefaults_def MaxPacketSizeOption_def
  MetricPrefixOption_def SendQueueCapacityOption_def SendLoopCountOption_def
  Incr_def checkBuf_def flushBuf_def Let_def
  flushLoop_timer_def flushLoop_shutdown_def flushIfNonEmpty_def sendLoop_dial_def
  sendLoop_receive_def sendLoop_park_def sendLoop_wakeup_def returnToPool_def
  reportLoop_shutdown_def Close_call_def Close_return_def

lemma flushBuf_open:
  "\<not> sendQueueClosed c \<Longrightarrow>
   flushBuf c n = Inr
     (if sendQueueRecvq c \<noteq> []
      then c\<lparr>bufPool := tl (bufPool c), buf := drop n (buf c),
             sendQueueRecvq := tl (sendQueueRecvq c),
             sendQueueHanded := sendQueueHanded c @ [(hd (sendQueueRecvq c), take n (buf c))]\<rparr>
      else if int (length (sendQueue c)) < SendQueueCapacity (options c)
      then c\<lparr>bufPool := tl (bufPool c), buf := drop n (buf c),
             sendQueue := sendQueue c @ [take n (buf c)]\<rparr>
      else c\<lparr>bufPool := tl (bufPool c), buf := drop n (buf c),
             lostPacketsPeriod := lostPacketsPeriod c + 1,
             lostPacketsOverall := lostPacketsOverall c + 1\<rparr>)"
  by (cases "bufPool c"; cases "sendQueueRecvq c") (simp_all add: flushBuf_def Let_def)

lemma flushBuf_closed: "sendQueueClosed c \<Longrightarrow> flushBuf c n = Inl SendOnClosedChannel"
  by (cases "bufPool c") (simp_all add: flushBuf_def Let_def)

lemma appendLine_open:
  "\<not> sendQueueClosed c \<Longrightarrow>
   appendLine c l = Inr
     (if int (length (buf c) + length l) \<le> MaxPacketSize (options c)
      then c\<lparr>buf := buf c @ l\<rparr>
      else if sendQueueRecvq c \<noteq> []
      then c\<lparr>bufPool := tl (bufPool c), buf := l,
             sendQueueRecvq := tl (sendQueueRecvq c),
             sendQueueHanded := sendQueueHanded c @ [(hd (sendQueueRecvq c), buf c)]\<rparr>
      else if int (length (sendQueue c)) < SendQueueCapacity (options c)
      then c\<lparr>bufPool := tl (bufPool c), buf := l, sendQueue := sendQueue c @ [buf c]\<rparr>
      else c\<lparr>bufPool := tl (bufPool c), buf := l,
             lostPacketsPeriod := lostPacketsPeriod c + 1,
             lostPacketsOverall := lostPacketsOverall c + 1\<rparr>)"
  by (simp add: appendLine_def checkBuf_def flushBuf_open)

lemma flushIfNonEmpty_open:
  "\<not> sendQueueClosed c \<Longrightarrow>
   flushIfNonEmpty c = Inr
     (if buf c = [] then c
      else if sendQueueRecvq c \<noteq> []
      then c\<lparr>bufPool := tl (bufPool c), buf := [],
             sendQueueRecvq := tl (sendQueueRecvq c),
             sendQueueHanded := sendQueueHanded c @ [(hd (sendQueueRecvq c), buf c)]\<rparr>
      else if int (length (sendQueue c)) < SendQueueCapacity (options c)
      then c\<lparr>bufPool := tl (bufPool c), buf := [], sendQueue := sendQueue c @ [buf c]\<rparr>
      else c\<lparr>bufPool := tl (bufPool c), buf := [],
             lostPacketsPeriod := lostPacketsPeriod c + 1,
             lostPacketsOverall := lostPacketsOverall c + 1\<rparr>)"
  by (simp add: flushIfNonEmpty_def flushBuf_open)

lemma appendLines_full:
  "\<not> sendQueueClosed c \<Longrightarrow> sendQueueRecvq c = [] \<Longrightarrow>
   SendQueueCapacity (options c) \<le> int (length (sendQueue c)) \<Longrightarrow>
   \<exists>c'. appendLines c ls = Inr c' \<and> sendQueue c' = sendQueue c
        \<and> sendQueueHanded c' = sendQueueHanded c \<and> sendQueueRecvq c' = []
        \<and> \<not> sendQueueClosed c' \<and> options c' = options c"
proof (induction ls arbitrary: c)
  case Nil
  then show ?case by simp
next
  case (Cons l ls)
  obtain c1 where c1: "appendLine c l = Inr c1" "sendQueue c1 = sendQueue c"
    "sendQueueHanded c1 = sendQueueHanded c" "sendQueueRecvq c1 = []"
    "\<not> sendQueueClosed c1" "options c1 = options c"
    using Cons.prems by (simp add: appendLine_open)
  with Cons.prems have "\<exists>c'. appendLines c1 ls = Inr c' \<and> sendQueue c' = sendQueue c1
      \<and> sendQueueHanded c' = sendQueueHanded c1 \<and> sendQueueRecvq c' = []
      \<and> \<not> sendQueueClosed c' \<and> options c' = options c1"
    by (intro Cons.IH) simp_all
  with c1 show ?case by auto
qed











text \<open>
  C3, as stated, fails. The client with the 16-byte packets and a queue of capacity 1:
  two counters fill the queue, \<open>Close\<close> is called and the flush loop closes the queue,
  which still holds its one buffer; of two more counters the second overflows the
  buffer, and this flush attempt, made while the queue is full, panics: the call does not
  return and no counter is increased. And the client with a queue of capacity 0, which
  holds as many buffers as its capacity at all times: a send loop connects and waits, a
  counter is emitted, and the flush tick hands its buffer to the send loop, which writes
  it; the flushed bytes are not discarded and no loss is counted. Likewise with packets
  of at most 5 bytes and capacity 0, where every line overflows: the send loop waits
  before each of two counters, receives what each flush hands over, and writes the first
  counter; no loss is counted.
\<close>

theorem full_queue_flush_panics_or_is_received:
  "\<not> isl cappedNew
   \<and> \<not> isl (run sampleStrconv (projr cappedNew)
         [Emit (MIncr ''a'' 1), Emit (MIncr ''b'' 12345678), CloseCall, FlushShutdown,
          Emit (MIncr ''a'' 1)])
   \<and> sendQueue (client (projr (run sampleStrconv (projr cappedNew)
         [Emit (MIncr ''a'' 1), Emit (MIncr ''b'' 12345678), CloseCall, FlushShutdown,
          Emit (MIncr ''a'' 1)])))
      = [''a:1|c'' @ [CHR 0x0A]]
   \<and> SendQueueCapacity (options (client (projr (run sampleStrconv (projr cappedNew)
         [Emit (MIncr ''a'' 1), Emit (MIncr ''b'' 12345678), CloseCall, FlushShutdown,
          Emit (MIncr ''a'' 1)]))))
      = 1
   \<and> buf (client (projr (run sampleStrconv (projr cappedNew)
         [Emit (MIncr ''a'' 1), Emit (MIncr ''b'' 12345678), CloseCall, FlushShutdown,
          Emit (MIncr ''a'' 1)])))
      = ''a:1|c'' @ [CHR 0x0A]
   \<and> step sampleStrconv (projr (run sampleStrconv (projr cappedNew)
         [Emit (MIncr ''a'' 1), Emit (MIncr ''b'' 12345678), CloseCall, FlushShutdown,
          Emit (MIncr ''a'' 1)])) (Emit (MIncr ''b'' 12345678))
      = Inl SendOnClosedChannel
   \<and> \<not> isl unbufferedNew
   \<and> \<not> isl (run sampleStrconv (projr unbufferedNew)
         [Dial 0 True, Park 0, Emit (MIncr ''a'' 1), FlushTimer, Wakeup 0 True])
   \<and> SendQueueCapacity (options (client (projr unbufferedNew))) = 0
   \<and> sendQueue (client (projr (run sampleStrconv (projr unbufferedNew)
         [Dial 0 True, Park 0, Emit (MIncr ''a'' 1)]))) = []
   \<and> sendQueueHanded (client (projr (run sampleStrconv (projr unbufferedNew)
         [Dial 0 True, Park 0, Emit (MIncr ''a'' 1), FlushTimer])))
      = [(0, ''a:1|c'' @ [CHR 0x0A])]
   \<and> lostPacketsPeriod (client (projr (run sampleStrconv (projr unbufferedNew)
         [Dial 0 True, Park 0, Emit (MIncr ''a'' 1), FlushTimer]))) = 0
   \<and> lostPacketsOverall (client (projr (run sampleStrconv (projr unbufferedNew)
         [Dial 0 True, Park 0, Emit (MIncr ''a'' 1), FlushTimer]))) = 0
   \<and> wire (projr (run sampleStrconv (projr unbufferedNew)
         [Dial 0 True, Park 0, Emit (MIncr ''a'' 1), FlushTimer, Wakeup 0 True]))
      = [''a:1|c'']
   \<and> \<not> isl lossyNew
   \<and> \<not> isl (run sampleStrconv (projr lossyNew)
         [Dial 0 True, Park 0, Emit (MIncr ''a'' 1), Wakeup 0 True,
          Park 0, Emit (MIncr ''b'' 1), Wakeup 0 True])
   \<and> lostPacketsPeriod (client (projr (run sampleStrconv (projr lossyNew)
         [Dial 0 True, Park 0, Emit (MIncr ''a'' 1), Wakeup 0 True,
          Park 0, Emit (MIncr ''b'' 1), Wakeup 0 True]))) = 0
   \<and> lostPacketsOverall (client (projr (run sampleStrconv (projr lossyNew)
         [Dial 0 True, Park 0, Emit (MIncr ''a'' 1), Wakeup 0 True,
          Park 0, Emit (MIncr ''b'' 1), Wakeup 0 True]))) = 0
   \<and> wire (projr (run sampleStrconv (projr lossyNew)
         [Dial 0 True, Park 0, Emit (MIncr ''a'' 1), Wakeup 0 True,
          Park 0, Emit (MIncr ''b'' 1), Wakeup 0 True]))
      = [''a:1|c'']"
proof -
  have v: "formatInt 1 = ''1''" "formatInt 12345678 = ''12345678''"
    by (simp_all add: formatInt_def formatUint.simps)
  show ?thesis by (simp add: cappedNew_def unbufferedNew_def lossyNew_def eval_defs v)
qed

text \<open>
  C3, as amended. For every flush attempt made while the dispatch queue cannot take the
  buffer (the queue is open, no send loop waits to receive from it, and it holds as many
  buffers as its capacity), both loss counters increase by exactly one (the atomic add of
  \<open>int64\<close>) and the flushed bytes are discarded: they are neither in the queue nor with
  a send loop, which are unchanged, nor in the new buffer, which holds only the bytes
  after the flushed ones. The metric-emission call that triggered the flush returns
  normally, with a client and no panic; its type has no error value.
\<close>

theorem full_queue_counts_loss:
  assumes "\<not> sendQueueClosed c"
    and "sendQueueRecvq c = []"
    and "SendQueueCapacity (options c) \<le> int (length (sendQueue c))"
  shows "flushBuf c n =
           Inr (c\<lparr>bufPool := tl (bufPool c), buf := drop n (buf c),
                  lostPacketsPeriod := lostPacketsPeriod c + 1,
                  lostPacketsOverall := lostPacketsOverall c + 1\<rparr>)
     \<and> (\<exists>c'. emit sc c m = Inr c' \<and> sendQueue c' = sendQueue c
           \<and> sendQueueHanded c' = sendQueueHanded c \<and> \<not> sendQueueClosed c')
     \<and> (metricLines sc (options c) m = [line]
          \<and> MaxPacketSize (options c) < int (length (buf c) + length line) \<longrightarrow>
        emit sc c m =
           Inr (c\<lparr>bufPool := tl (bufPool c), buf := line,
                  lostPacketsPeriod := lostPacketsPeriod c + 1,
                  lostPacketsOverall := lostPacketsOverall c + 1\<rparr>))"
proof (intro conjI impI)
  show "flushBuf c n =
           Inr (c\<lparr>bufPool := tl (bufPool c), buf := drop n (buf c),
                  lostPacketsPeriod := lostPacketsPeriod c + 1,
                  lostPacketsOverall := lostPacketsOverall c + 1\<rparr>)"
    using assms by (simp add: flushBuf_open)
  show "\<exists>c'. emit sc c m = Inr c' \<and> sendQueue c' = sendQueue c
           \<and> sendQueueHanded c' = sendQueueHanded c \<and> \<not> sendQueueClosed c'"
    using appendLines_full [OF assms, of "metricLines sc (options c) m"]
    by (auto simp: emit_appendLines)
next
  assume "metricLines sc (options c) m = [line]
          \<and> MaxPacketSize (options c) < int (length (buf c) + length line)"
  then show "emit sc c m =
           Inr (c\<lparr>bufPool := tl (bufPool c), buf := line,
                  lostPacketsPeriod := lostPacketsPeriod c + 1,
                  lostPacketsOverall := lostPacketsOverall c + 1\<rparr>)"
    using assms by (simp add: emit_appendLines appendLines_single appendLine_open del: appendLines.simps)
qed

text \<open>A counter that overflows the 16-byte packet of the client with the full queue.\<close>

theorem full_queue_counts_loss_witness:
  "flushBuf fullClient 6 =
     Inr (fullClient\<lparr>buf := [], lostPacketsPeriod := 1, lostPacketsOverall := 1\<rparr>)
   \<and> emit sampleStrconv fullClient (MIncr ''b'' 12345678) =
     Inr (fullClient\<lparr>buf := ''b:12345678|c'' @ [CHR 0x0A],
                      lostPacketsPeriod := 1, lostPacketsOverall := 1\<rparr>)"
proof -
  have o: "\<not> sendQueueClosed fullClient" "sendQueueRecvq fullClient = []"
    "SendQueueCapacity (options fullClient) \<le> int (length (sendQueue fullClient))"
    by (simp_all add: fullClient_def smallClient_def sampleDefaults_def)
  note t = full_queue_counts_loss [OF o, of 6 sampleStrconv "MIncr ''b'' 12345678"
      "''b:12345678|c'' @ [CHR 0x0A]"]
  have v: "formatInt 12345678 = ''12345678''"
    by (simp add: formatInt_def formatUint.simps)
  have f: "fullClient\<lparr>bufPool := tl (bufPool fullClient)\<rparr> = fullClient"
    "buf fullClient = ''a:1|c'' @ [CHR 0x0A]" "lostPacketsPeriod fullClient = 0"
    "lostPacketsOverall fullClient = 0" "MetricPrefix (options fullClient) = []"
    "MaxPacketSize (options fullClient) = 16"
    by (simp_all add: fullClient_def smallClient_def sampleDefaults_def)
  have a: "flushBuf fullClient 6 =
     Inr (fullClient\<lparr>buf := [], lostPacketsPeriod := 1, lostPacketsOverall := 1\<rparr>)"
    using t [THEN conjunct1] f by simp
  have b: "emit sampleStrconv fullClient (MIncr ''b'' 12345678) =
     Inr (fullClient\<lparr>buf := ''b:12345678|c'' @ [CHR 0x0A],
                      lostPacketsPeriod := 1, lostPacketsOverall := 1\<rparr>)"
    using t [THEN conjunct2, THEN conjunct2] f by (simp add: v metricLine_def)
  from a b show ?thesis by simp
qed




section \<open>Loss counters\<close>

lemma flushBuf_Inr:
  "flushBuf c n = Inr c' \<Longrightarrow>
   \<not> sendQueueClosed c \<and> c' =
     (if sendQueueRecvq c \<noteq> []
      then c\<lparr>bufPool := tl (bufPool c), buf := drop n (buf c),
             sendQueueRecvq := tl (sendQueueRecvq c),
             sendQueueHanded := sendQueueHanded c @ [(hd (sendQueueRecvq c), take n (buf c))]\<rparr>
      else if int (length (sendQueue c)) < SendQueueCapacity (options c)
      then c\<lparr>bufPool := tl (bufPool c), buf := drop n (buf c),
             sendQueue := sendQueue c @ [take n (buf c)]\<rparr>
      else c\<lparr>bufPool := tl (bufPool c), buf := drop n (buf c),
             lostPacketsPeriod := lostPacketsPeriod c + 1,
             lostPacketsOverall := lostPacketsOverall c + 1\<rparr>)"
  by (cases "sendQueueClosed c") (simp_all add: flushBuf_open flushBuf_closed)

lemma appendLine_Inr:
  "appendLine c l = Inr c' \<Longrightarrow>
   c' = (if int (length (buf c) + length l) \<le> MaxPacketSize (options c)
         then c\<lparr>buf := buf c @ l\<rparr>
         else if sendQueueRecvq c \<noteq> []
         then c\<lparr>bufPool := tl (bufPool c), buf := l,
                sendQueueRecvq := tl (sendQueueRecvq c),
                sendQueueHanded := sendQueueHanded c @ [(hd (sendQueueRecvq c), buf c)]\<rparr>
         else if int (length (sendQueue c)) < SendQueueCapacity (options c)
         then c\<lparr>bufPool := tl (bufPool c), buf := l, sendQueue := sendQueue c @ [buf c]\<rparr>
         else c\<lparr>bufPool := tl (bufPool c), buf := l,
                lostPacketsPeriod := lostPacketsPeriod c + 1,
                lostPacketsOverall := lostPacketsOverall c + 1\<rparr>)"
  by (cases "sendQueueClosed c")
     (auto simp: appendLine_open, auto simp: appendLine_def checkBuf_def flushBuf_closed split: if_splits)

lemma flushIfNonEmpty_Inr:
  "flushIfNonEmpty c = Inr c' \<Longrightarrow>
   c' = (if buf c = [] then c
         else if sendQueueRecvq c \<noteq> []
         then c\<lparr>bufPool := tl (bufPool c), buf := [],
                sendQueueRecvq := tl (sendQueueRecvq c),
                sendQueueHanded := sendQueueHanded c @ [(hd (sendQueueRecvq c), buf c)]\<rparr>
         else if int (length (sendQueue c)) < SendQueueCapacity (options c)
         then c\<lparr>bufPool := tl (bufPool c), buf := [], sendQueue := sendQueue c @ [buf c]\<rparr>
         else c\<lparr>bufPool := tl (bufPool c), buf := [],
                lostPacketsPeriod := lostPacketsPeriod c + 1,
                lostPacketsOverall := lostPacketsOverall c + 1\<rparr>)"
  by (cases "sendQueueClosed c")
     (auto simp: flushIfNonEmpty_open, auto simp: flushIfNonEmpty_def flushBuf_closed split: if_splits)

text \<open>A property kept by every append is kept by a sequence of appends.\<close>

lemma appendLines_preserves:
  assumes "appendLines c ls = Inr c'" and "P c"
    and "\<And>c l c1. P c \<Longrightarrow> l \<in> set ls \<Longrightarrow> appendLine c l = Inr c1 \<Longrightarrow> P c1"
  shows "P c'"
  using assms
proof (induction ls arbitrary: c)
  case Nil
  then show ?case by simp
next
  case (Cons l ls)
  from Cons.prems(1) obtain c1 where c1: "appendLine c l = Inr c1" "appendLines c1 ls = Inr c'"
    by (auto split: sum.splits)
  have "P c1" using Cons.prems(2,3) c1(1) by auto
  with c1(2) show ?case using Cons.prems(3) by (intro Cons.IH [of c1]) auto
qed


lemma appendLines_counters:
  assumes "appendLines c ls = Inr c'"
  shows "options c' = options c \<and> length (sendQueue c) \<le> length (sendQueue c')
     \<and> ((lostPacketsPeriod c' = lostPacketsPeriod c
           \<and> lostPacketsOverall c' = lostPacketsOverall c)
         \<or> SendQueueCapacity (options c') \<le> int (length (sendQueue c')))"
proof (rule appendLines_preserves [OF assms])
  show "options c = options c \<and> length (sendQueue c) \<le> length (sendQueue c)
     \<and> ((lostPacketsPeriod c = lostPacketsPeriod c
           \<and> lostPacketsOverall c = lostPacketsOverall c)
         \<or> SendQueueCapacity (options c) \<le> int (length (sendQueue c)))"
    by simp
next
  fix x l x1
  assume p: "options x = options c \<and> length (sendQueue c) \<le> length (sendQueue x)
     \<and> ((lostPacketsPeriod x = lostPacketsPeriod c
           \<and> lostPacketsOverall x = lostPacketsOverall c)
         \<or> SendQueueCapacity (options x) \<le> int (length (sendQueue x)))"
    and a: "appendLine x l = Inr x1"
  show "options x1 = options c \<and> length (sendQueue c) \<le> length (sendQueue x1)
     \<and> ((lostPacketsPeriod x1 = lostPacketsPeriod c
           \<and> lostPacketsOverall x1 = lostPacketsOverall c)
         \<or> SendQueueCapacity (options x1) \<le> int (length (sendQueue x1)))"
    using p appendLine_Inr [OF a] by (auto split: if_splits)
qed

lemma returnToPool_frame:
  "lostPacketsPeriod (returnToPool c b) = lostPacketsPeriod c"
  "lostPacketsOverall (returnToPool c b) = lostPacketsOverall c"
  "sendQueue (returnToPool c b) = sendQueue c"
  "buf (returnToPool c b) = buf c"
  "options (returnToPool c b) = options c"
  "sendQueueClosed (returnToPool c b) = sendQueueClosed c"
  "shutdown (returnToPool c b) = shutdown c"
  "shutdownWg (returnToPool c b) = shutdownWg c"
  "sendQueueRecvq (returnToPool c b) = sendQueueRecvq c"
  "sendQueueHanded (returnToPool c b) = sendQueueHanded c"
  by (simp_all add: returnToPool_def)

lemma sendLoop_receive_counters:
  "lostPacketsPeriod (client (sendLoop_receive s i ok)) = lostPacketsPeriod (client s)
   \<and> lostPacketsOverall (client (sendLoop_receive s i ok)) = lostPacketsOverall (client s)"
  by (simp add: sendLoop_receive_def returnToPool_frame Let_def split: list.splits)

lemma sendLoop_wakeup_counters:
  "lostPacketsPeriod (client (sendLoop_wakeup s i ok)) = lostPacketsPeriod (client s)
   \<and> lostPacketsOverall (client (sendLoop_wakeup s i ok)) = lostPacketsOverall (client s)"
  by (simp add: sendLoop_wakeup_def returnToPool_frame Let_def split: option.splits)

lemma step_counters:
  assumes "step sc s e = Inr s'"
    and "lostPacketsPeriod (client s') \<noteq> lostPacketsPeriod (client s)
         \<or> lostPacketsOverall (client s') \<noteq> lostPacketsOverall (client s)"
  shows "e = ReportTimer
     \<or> (flushes e \<and> SendQueueCapacity (options (client s')) \<le> int (length (sendQueue (client s'))))"
proof (cases e)
  case (Emit m)
  then obtain c' where c': "emit sc (client s) m = Inr c'" "s' = s\<lparr>client := c'\<rparr>"
    using assms(1) by (auto split: sum.splits)
  from appendLines_counters [of "client s" "metricLines sc (options (client s)) m" c'] c'(1)
  show ?thesis using assms(2) c'(2) Emit by (auto simp: emit_appendLines)
next
  case FlushTimer
  then show ?thesis using assms
    by (auto simp: flushLoop_timer_def split: if_splits sum.splits dest!: flushIfNonEmpty_Inr)
next
  case FlushShutdown
  then show ?thesis using assms
    by (auto simp: flushLoop_shutdown_def split: if_splits sum.splits dest!: flushIfNonEmpty_Inr)
next
  case (Dial i ok)
  then show ?thesis using assms by (auto simp: sendLoop_dial_def split: if_splits)
next
  case (Receive i ok)
  then show ?thesis using assms sendLoop_receive_counters [of s i ok] by auto
next
  case (Park i)
  then show ?thesis using assms by (auto simp: sendLoop_park_def split: if_splits)
next
  case (Wakeup i ok)
  then show ?thesis using assms sendLoop_wakeup_counters [of s i ok] by auto
next
  case (ReconnectTimer i)
  then show ?thesis using assms by (auto simp: sendLoop_reconnect_def split: if_splits)
next
  case (Wake i)
  then show ?thesis using assms by (auto simp: sendLoop_wake_def split: if_splits)
next
  case ReportTimer
  then show ?thesis by simp
next
  case ReportShutdown
  then show ?thesis using assms by (auto simp: reportLoop_shutdown_def split: if_splits)
next
  case CloseCall
  then show ?thesis using assms by (auto simp: Close_call_def split: if_splits)
next
  case CloseReturn
  then show ?thesis using assms by (auto simp: Close_return_def split: if_splits)
qed


lemma sint_succ:
  fixes x :: int64
  assumes "0 \<le> sint x" and "sint x + 1 < 2 ^ 63"
  shows "sint (x + 1) = sint x + 1"
proof -
  have "sint (x + 1) = signed_take_bit 63 (sint x + sint (1 :: int64))"
    by (simp add: sint_word_add)
  also have "\<dots> = sint x + 1"
    using assms by (simp add: signed_take_bit_int_eq_self)
  finally show ?thesis .
qed

lemma metricLines_length: "length (metricLines sc opts m) \<le> 2"
  by (cases m) simp_all

lemma appendLine_overall:
  "appendLine c l = Inr c' \<Longrightarrow>
   lostPacketsOverall c' = lostPacketsOverall c \<or> lostPacketsOverall c' = lostPacketsOverall c + 1"
  by (drule appendLine_Inr) (simp split: if_splits)

lemma appendLines_overall:
  assumes "appendLines c ls = Inr c'" and "length ls \<le> 2"
  shows "lostPacketsOverall c' = lostPacketsOverall c
     \<or> lostPacketsOverall c' = lostPacketsOverall c + 1
     \<or> lostPacketsOverall c' = lostPacketsOverall c + 1 + 1"
proof -
  from assms(2) consider "ls = []" | l where "ls = [l]" | l1 l2 where "ls = [l1, l2]"
    by (cases ls rule: list.exhaust; simp; metis Suc_le_mono le_zero_eq length_0_conv length_Suc_conv list.exhaust list.size(4) One_nat_def)
  then show ?thesis
  proof cases
    case 1
    with assms show ?thesis by simp
  next
    case 2
    with assms appendLine_overall [of c l c'] show ?thesis
      by (auto simp: appendLines_single simp del: appendLines.simps)
  next
    case 3
    with assms obtain c1 where "appendLine c l1 = Inr c1" "appendLine c1 l2 = Inr c'"
      by (auto simp: appendLines_pair simp del: appendLines.simps split: sum.splits)
    then show ?thesis
      using appendLine_overall [of c l1 c1] appendLine_overall [of c1 l2 c'] by auto
  qed
qed

lemma step_overall_cases:
  assumes "step sc s e = Inr s'"
  shows "lostPacketsOverall (client s') = lostPacketsOverall (client s)
     \<or> lostPacketsOverall (client s') = lostPacketsOverall (client s) + 1
     \<or> lostPacketsOverall (client s') = lostPacketsOverall (client s) + 1 + 1"
proof (cases e)
  case (Emit m)
  then obtain c' where c': "emit sc (client s) m = Inr c'" "s' = s\<lparr>client := c'\<rparr>"
    using assms(1) by (auto split: sum.splits)
  from appendLines_overall [of "client s" "metricLines sc (options (client s)) m" c'] c'
  show ?thesis by (simp add: emit_appendLines metricLines_length)
next
  case FlushTimer
  then show ?thesis using assms
    by (auto simp: flushLoop_timer_def split: if_splits sum.splits dest!: flushIfNonEmpty_Inr)
next
  case FlushShutdown
  then show ?thesis using assms
    by (auto simp: flushLoop_shutdown_def split: if_splits sum.splits dest!: flushIfNonEmpty_Inr)
next
  case (Dial i ok)
  then show ?thesis using assms by (auto simp: sendLoop_dial_def split: if_splits)
next
  case (Receive i ok)
  then show ?thesis using assms sendLoop_receive_counters [of s i ok] by auto
next
  case (Park i)
  then show ?thesis using assms by (auto simp: sendLoop_park_def split: if_splits)
next
  case (Wakeup i ok)
  then show ?thesis using assms sendLoop_wakeup_counters [of s i ok] by auto
next
  case (ReconnectTimer i)
  then show ?thesis using assms by (auto simp: sendLoop_reconnect_def split: if_splits)
next
  case (Wake i)
  then show ?thesis using assms by (auto simp: sendLoop_wake_def split: if_splits)
next
  case ReportTimer
  then show ?thesis using assms by (auto simp: reportLoop_timer_def Let_def split: if_splits)
next
  case ReportShutdown
  then show ?thesis using assms by (auto simp: reportLoop_shutdown_def split: if_splits)
next
  case CloseCall
  then show ?thesis using assms by (auto simp: Close_call_def split: if_splits)
next
  case CloseReturn
  then show ?thesis using assms by (auto simp: Close_return_def split: if_splits)
qed

lemma step_overall_bound:
  assumes "step sc s e = Inr s'" and "0 \<le> sint (lostPacketsOverall (client s))"
    and "sint (lostPacketsOverall (client s)) + 2 < 2 ^ 63"
  shows "sint (lostPacketsOverall (client s)) \<le> sint (lostPacketsOverall (client s'))
     \<and> sint (lostPacketsOverall (client s')) \<le> sint (lostPacketsOverall (client s)) + 2"
proof -
  let ?x = "lostPacketsOverall (client s)"
  have 1: "sint (?x + 1) = sint ?x + 1" using assms(2,3) by (intro sint_succ) simp_all
  have 2: "sint (?x + 1 + 1) = sint ?x + 2"
    using sint_succ [of "?x + 1"] assms(2,3) 1 by simp
  from step_overall_cases [OF assms(1)] 1 2 show ?thesis by auto
qed

lemma run_overall_bound:
  assumes "run sc s evs = Inr s'" and "0 \<le> sint (lostPacketsOverall (client s))"
    and "sint (lostPacketsOverall (client s)) + 2 * int (length evs) < 2 ^ 63"
  shows "sint (lostPacketsOverall (client s)) \<le> sint (lostPacketsOverall (client s'))
     \<and> sint (lostPacketsOverall (client s'))
         \<le> sint (lostPacketsOverall (client s)) + 2 * int (length evs)"
  using assms
proof (induction evs arbitrary: s)
  case Nil
  then show ?case by simp
next
  case (Cons e evs)
  from Cons.prems(1) obtain s1 where s1: "step sc s e = Inr s1" "run sc s1 evs = Inr s'"
    by (auto split: sum.splits)
  have b: "sint (lostPacketsOverall (client s)) \<le> sint (lostPacketsOverall (client s1))
     \<and> sint (lostPacketsOverall (client s1)) \<le> sint (lostPacketsOverall (client s)) + 2"
    using Cons.prems(2,3) by (intro step_overall_bound [OF s1(1)]) simp_all
  have "sint (lostPacketsOverall (client s1)) \<le> sint (lostPacketsOverall (client s'))
     \<and> sint (lostPacketsOverall (client s'))
         \<le> sint (lostPacketsOverall (client s1)) + 2 * int (length evs)"
    using Cons.prems(2,3) b by (intro Cons.IH [OF s1(2)]) simp_all
  with b show ?case by simp
qed

lemma NewClient_Inr:
  assumes "NewClient defaults addr opts = Inr s0"
  shows "buf (client s0) = []" "sendQueue (client s0) = []" "bufPool (client s0) = []"
    "\<not> sendQueueClosed (client s0)" "\<not> shutdown (client s0)"
    "lostPacketsPeriod (client s0) = 0" "lostPacketsOverall (client s0) = 0"
    "wire s0 = []" "logger s0 = []" "flushLoop s0 = Running" "closeCaller s0 = NotStarted"
    "reportLoop s0 \<noteq> Exited"
    "shutdownWg (client s0)
       = int (length (sendLoops s0)) + (if reportLoop s0 = Running then 1 else 0)"
    "sendLoops s0 = replicate (nat (SendLoopCount (options (client s0)))) Connecting"
    "sendQueueRecvq (client s0) = []" "sendQueueHanded (client s0) = []"
  using assms by (auto simp: NewClient_def Let_def split: if_splits)

text \<open>
  C4. When a send worker's socket write fails, neither loss counter changes: the
  datagram in flight is dropped (it is removed from the queue, or from what was handed to
  the worker while it waited, and goes neither to the wire nor back to the queue or the
  pool), the error is logged, and the worker waits and then reconnects. No step of a send
  loop changes a loss counter; a step of the system that changes one is the report tick
  or a flush that found the dispatch queue full.
\<close>

theorem write_failure_counts_no_loss:
  "(i < length (sendLoops s) \<and> sendLoops s ! i = Ready
      \<and> sendQueue (client s) = b # rest \<and> b \<noteq> [] \<longrightarrow>
    sendLoop_receive s i False =
      s\<lparr>client := (client s)\<lparr>sendQueue := rest\<rparr>,
        sendLoops := (sendLoops s)[i := Waiting],
        logger := logger s @ [ErrorWriting]\<rparr>
    \<and> sendLoop_wake (sendLoop_receive s i False) i =
      s\<lparr>client := (client s)\<lparr>sendQueue := rest\<rparr>,
        sendLoops := (sendLoops s)[i := Connecting],
        logger := logger s @ [ErrorWriting]\<rparr>)
   \<and> lostPacketsPeriod (client (sendLoop_receive s i ok)) = lostPacketsPeriod (client s)
   \<and> lostPacketsOverall (client (sendLoop_receive s i ok)) = lostPacketsOverall (client s)
   \<and> (step sc s e = Inr s'
        \<and> (lostPacketsPeriod (client s') \<noteq> lostPacketsPeriod (client s)
            \<or> lostPacketsOverall (client s') \<noteq> lostPacketsOverall (client s)) \<longrightarrow>
      e = ReportTimer
      \<or> (flushes e
          \<and> SendQueueCapacity (options (client s')) \<le> int (length (sendQueue (client s')))))
   \<and> (i < length (sendLoops s) \<and> sendLoops s ! i = Parked
        \<and> map_of (sendQueueHanded (client s)) i = Some b \<and> b \<noteq> [] \<longrightarrow>
      sendLoop_wakeup s i False =
        s\<lparr>client := (client s)\<lparr>sendQueueHanded :=
                                  filter (\<lambda>h. fst h \<noteq> i) (sendQueueHanded (client s))\<rparr>,
          sendLoops := (sendLoops s)[i := Waiting],
          logger := logger s @ [ErrorWriting]\<rparr>
      \<and> sendLoop_wake (sendLoop_wakeup s i False) i =
        s\<lparr>client := (client s)\<lparr>sendQueueHanded :=
                                  filter (\<lambda>h. fst h \<noteq> i) (sendQueueHanded (client s))\<rparr>,
          sendLoops := (sendLoops s)[i := Connecting],
          logger := logger s @ [ErrorWriting]\<rparr>)
   \<and> lostPacketsPeriod (client (sendLoop_wakeup s i ok)) = lostPacketsPeriod (client s)
   \<and> lostPacketsOverall (client (sendLoop_wakeup s i ok)) = lostPacketsOverall (client s)"
proof (intro conjI impI)
  assume a: "i < length (sendLoops s) \<and> sendLoops s ! i = Ready
      \<and> sendQueue (client s) = b # rest \<and> b \<noteq> []"
  then show r: "sendLoop_receive s i False =
      s\<lparr>client := (client s)\<lparr>sendQueue := rest\<rparr>,
        sendLoops := (sendLoops s)[i := Waiting],
        logger := logger s @ [ErrorWriting]\<rparr>"
    by (simp add: sendLoop_receive_def)
  from a show "sendLoop_wake (sendLoop_receive s i False) i =
      s\<lparr>client := (client s)\<lparr>sendQueue := rest\<rparr>,
        sendLoops := (sendLoops s)[i := Connecting],
        logger := logger s @ [ErrorWriting]\<rparr>"
    unfolding r by (simp add: sendLoop_wake_def)
next
  show "lostPacketsPeriod (client (sendLoop_receive s i ok)) = lostPacketsPeriod (client s)"
    "lostPacketsOverall (client (sendLoop_receive s i ok)) = lostPacketsOverall (client s)"
    using sendLoop_receive_counters [of s i ok] by simp_all
next
  assume "step sc s e = Inr s'
        \<and> (lostPacketsPeriod (client s') \<noteq> lostPacketsPeriod (client s)
            \<or> lostPacketsOverall (client s') \<noteq> lostPacketsOverall (client s))"
  then show "e = ReportTimer
      \<or> (flushes e
          \<and> SendQueueCapacity (options (client s')) \<le> int (length (sendQueue (client s'))))"
    using step_counters [of sc s e s'] by blast
next
  assume a: "i < length (sendLoops s) \<and> sendLoops s ! i = Parked
        \<and> map_of (sendQueueHanded (client s)) i = Some b \<and> b \<noteq> []"
  then show r: "sendLoop_wakeup s i False =
        s\<lparr>client := (client s)\<lparr>sendQueueHanded :=
                                  filter (\<lambda>h. fst h \<noteq> i) (sendQueueHanded (client s))\<rparr>,
          sendLoops := (sendLoops s)[i := Waiting],
          logger := logger s @ [ErrorWriting]\<rparr>"
    by (simp add: sendLoop_wakeup_def)
  from a show "sendLoop_wake (sendLoop_wakeup s i False) i =
        s\<lparr>client := (client s)\<lparr>sendQueueHanded :=
                                  filter (\<lambda>h. fst h \<noteq> i) (sendQueueHanded (client s))\<rparr>,
          sendLoops := (sendLoops s)[i := Connecting],
          logger := logger s @ [ErrorWriting]\<rparr>"
    unfolding r by (simp add: sendLoop_wake_def)
next
  show "lostPacketsPeriod (client (sendLoop_wakeup s i ok)) = lostPacketsPeriod (client s)"
    "lostPacketsOverall (client (sendLoop_wakeup s i ok)) = lostPacketsOverall (client s)"
    using sendLoop_wakeup_counters [of s i ok] by simp_all
qed

text \<open>
  A connected send loop whose write of the queued buffer fails; a counter emitted into
  the client with the full queue, the step that does change the loss counters; and a
  send loop that was handed a buffer while it waited, whose write of it fails.
\<close>

theorem write_failure_counts_no_loss_witness:
  "sendLoop_receive (systemOf (smallClient\<lparr>sendQueue := [''x:1|c'' @ [CHR 0x0A]]\<rparr>)) 0 False =
     (systemOf (smallClient\<lparr>sendQueue := [''x:1|c'' @ [CHR 0x0A]]\<rparr>))
       \<lparr>client := smallClient\<lparr>sendQueue := []\<rparr>, sendLoops := [Waiting],
        logger := [ErrorWriting]\<rparr>
   \<and> step sampleStrconv (systemOf fullClient) (Emit (MIncr ''b'' 12345678)) =
     Inr (systemOf (fullClient\<lparr>buf := ''b:12345678|c'' @ [CHR 0x0A],
                                lostPacketsPeriod := 1, lostPacketsOverall := 1\<rparr>))
   \<and> flushes (Emit (MIncr ''b'' 12345678))
   \<and> SendQueueCapacity (options fullClient) \<le> int (length (sendQueue fullClient))
   \<and> sendLoop_wakeup
        ((systemOf (smallClient\<lparr>sendQueueHanded := [(0, ''x:1|c'' @ [CHR 0x0A])]\<rparr>))
           \<lparr>sendLoops := [Parked]\<rparr>) 0 False =
     (systemOf smallClient)\<lparr>sendLoops := [Waiting], logger := [ErrorWriting]\<rparr>"
proof -
  let ?s = "systemOf (smallClient\<lparr>sendQueue := [''x:1|c'' @ [CHR 0x0A]]\<rparr>)"
  let ?p = "(systemOf (smallClient\<lparr>sendQueueHanded := [(0, ''x:1|c'' @ [CHR 0x0A])]\<rparr>))
           \<lparr>sendLoops := [Parked]\<rparr>"
  let ?e = "Emit (MIncr ''b'' 12345678)"
  let ?c' = "fullClient\<lparr>buf := ''b:12345678|c'' @ [CHR 0x0A],
                        lostPacketsPeriod := 1, lostPacketsOverall := 1\<rparr>"
  note t = write_failure_counts_no_loss
    [where i = 0 and s = ?s and b = "''x:1|c'' @ [CHR 0x0A]" and rest = "[]"]
  note u = write_failure_counts_no_loss
    [where s = "systemOf fullClient" and sc = sampleStrconv and e = ?e and s' = "systemOf ?c'"]
  note w = write_failure_counts_no_loss
    [where i = 0 and s = ?p and b = "''x:1|c'' @ [CHR 0x0A]"]
  have v: "formatInt 12345678 = ''12345678''"
    by (simp add: formatInt_def formatUint.simps)
  have a: "sendLoop_receive ?s 0 False =
      ?s\<lparr>client := (client ?s)\<lparr>sendQueue := []\<rparr>,
         sendLoops := (sendLoops ?s)[0 := Waiting],
         logger := logger ?s @ [ErrorWriting]\<rparr>"
    by (rule t [THEN conjunct1, THEN mp, THEN conjunct1]) (simp add: systemOf_def)
  have st: "step sampleStrconv (systemOf fullClient) ?e = Inr (systemOf ?c')"
    by (simp add: systemOf_def Incr_def checkBuf_def flushBuf_def Let_def v fullClient_def
        smallClient_def sampleDefaults_def)
  have cnt: "lostPacketsPeriod (client (systemOf ?c'))
             \<noteq> lostPacketsPeriod (client (systemOf fullClient))"
    by (simp add: systemOf_def fullClient_def smallClient_def)
  have "?e = ReportTimer
      \<or> (flushes ?e
          \<and> SendQueueCapacity (options (client (systemOf ?c')))
             \<le> int (length (sendQueue (client (systemOf ?c')))))"
    by (rule u [THEN conjunct2, THEN conjunct2, THEN conjunct2, THEN conjunct1, THEN mp])
       (use st cnt in blast)
  then have b: "flushes ?e
      \<and> SendQueueCapacity (options fullClient) \<le> int (length (sendQueue fullClient))"
    by (simp add: systemOf_def)
  have "sendLoop_wakeup ?p 0 False =
        ?p\<lparr>client := (client ?p)\<lparr>sendQueueHanded :=
                                  filter (\<lambda>h. fst h \<noteq> 0) (sendQueueHanded (client ?p))\<rparr>,
           sendLoops := (sendLoops ?p)[0 := Waiting],
           logger := logger ?p @ [ErrorWriting]\<rparr>"
    by (rule w [THEN conjunct2, THEN conjunct2, THEN conjunct2, THEN conjunct2,
                THEN conjunct1, THEN mp, THEN conjunct1])
       (simp add: systemOf_def)
  then have c: "sendLoop_wakeup ?p 0 False =
     (systemOf smallClient)\<lparr>sendLoops := [Waiting], logger := [ErrorWriting]\<rparr>"
    by (simp add: systemOf_def smallClient_def)
  from a st b c show ?thesis by (simp add: systemOf_def)
qed

text \<open>
  C5. On each report tick the period loss counter is swapped to zero, in one atomic step,
  and a diagnostic record is emitted if and only if the swapped value was greater than
  zero; the tick leaves the overall counter unchanged. The overall counter, which
  \<open>GetLostPackets\<close> returns, never decreases: in every run of a client made by
  \<open>NewClient\<close>, its value at a later point is at least its value at an earlier one. (The
  counter is an \<open>int64\<close>: the run is taken shorter than \<open>2^62\<close> steps, below which no
  wrap-around can occur.)
\<close>

theorem report_tick_swaps_period_overall_monotone:
  "(reportLoop s = Running \<longrightarrow>
      lostPacketsPeriod (client (reportLoop_timer s)) = 0
      \<and> lostPacketsOverall (client (reportLoop_timer s)) = lostPacketsOverall (client s)
      \<and> logger (reportLoop_timer s) =
          (if 0 < sint (lostPacketsPeriod (client s))
           then logger s @ [PacketsLost (lostPacketsPeriod (client s))]
           else logger s))
   \<and> (NewClient defaults addr opts = Inr ini \<and> run sc ini evs = Inr mid
        \<and> run sc mid evs' = Inr fin \<and> 2 * int (length evs + length evs') < 2 ^ 63 \<longrightarrow>
      sint (GetLostPackets (client mid)) \<le> sint (GetLostPackets (client fin)))"
proof (intro conjI impI)
  assume "reportLoop s = Running"
  then show "lostPacketsPeriod (client (reportLoop_timer s)) = 0"
    "lostPacketsOverall (client (reportLoop_timer s)) = lostPacketsOverall (client s)"
    "logger (reportLoop_timer s) =
          (if 0 < sint (lostPacketsPeriod (client s))
           then logger s @ [PacketsLost (lostPacketsPeriod (client s))]
           else logger s)"
    by (simp_all add: reportLoop_timer_def Let_def)
next
  assume a: "NewClient defaults addr opts = Inr ini \<and> run sc ini evs = Inr mid
        \<and> run sc mid evs' = Inr fin \<and> 2 * int (length evs + length evs') < 2 ^ 63"
  then have z: "lostPacketsOverall (client ini) = 0"
    using NewClient_Inr(7) [of defaults addr opts ini] by blast
  have b1: "sint (lostPacketsOverall (client ini)) \<le> sint (lostPacketsOverall (client mid))
     \<and> sint (lostPacketsOverall (client mid))
         \<le> sint (lostPacketsOverall (client ini)) + 2 * int (length evs)"
    using a z by (intro run_overall_bound [of sc ini evs mid]) simp_all
  have "sint (lostPacketsOverall (client mid)) \<le> sint (lostPacketsOverall (client fin))
     \<and> sint (lostPacketsOverall (client fin))
         \<le> sint (lostPacketsOverall (client mid)) + 2 * int (length evs')"
    using a z b1 by (intro run_overall_bound [of sc mid evs' fin]) simp_all
  then show "sint (GetLostPackets (client mid)) \<le> sint (GetLostPackets (client fin))"
    by (simp add: GetLostPackets_def)
qed

text \<open>
  A report tick with three packets lost in the period and seven overall; and the client
  with packets of 5 bytes and queue capacity 0, which loses one packet per counter.
\<close>

theorem report_tick_swaps_period_overall_monotone_witness:
  "lostPacketsPeriod (client (reportLoop_timer
       (systemOf (smallClient\<lparr>lostPacketsPeriod := 3, lostPacketsOverall := 7\<rparr>)))) = 0
   \<and> lostPacketsOverall (client (reportLoop_timer
       (systemOf (smallClient\<lparr>lostPacketsPeriod := 3, lostPacketsOverall := 7\<rparr>)))) = 7
   \<and> logger (reportLoop_timer
       (systemOf (smallClient\<lparr>lostPacketsPeriod := 3, lostPacketsOverall := 7\<rparr>)))
      = [PacketsLost 3]
   \<and> \<not> isl lossyNew
   \<and> \<not> isl (run sampleStrconv (projr lossyNew) [Emit (MIncr ''a'' 1)])
   \<and> \<not> isl (run sampleStrconv (projr lossyNew) [Emit (MIncr ''a'' 1), Emit (MIncr ''b'' 2)])
   \<and> GetLostPackets (client (projr (run sampleStrconv (projr lossyNew)
         [Emit (MIncr ''a'' 1)]))) = 1
   \<and> GetLostPackets (client (projr (run sampleStrconv (projr lossyNew)
         [Emit (MIncr ''a'' 1), Emit (MIncr ''b'' 2)]))) = 2
   \<and> sint (GetLostPackets (client (projr (run sampleStrconv (projr lossyNew)
         [Emit (MIncr ''a'' 1)]))))
      \<le> sint (GetLostPackets (client (projr (run sampleStrconv (projr lossyNew)
         [Emit (MIncr ''a'' 1), Emit (MIncr ''b'' 2)]))))"
proof -
  let ?rs = "systemOf (smallClient\<lparr>lostPacketsPeriod := 3, lostPacketsOverall := 7\<rparr>)"
  let ?ini = "projr lossyNew"
  let ?mid = "projr (run sampleStrconv ?ini [Emit (MIncr ''a'' 1)])"
  let ?fin = "projr (run sampleStrconv ?ini [Emit (MIncr ''a'' 1), Emit (MIncr ''b'' 2)])"
  have v: "formatInt 1 = ''1''" "formatInt 2 = ''2''"
    by (simp_all add: formatInt_def formatUint.simps)
  have n: "lossyNew = Inr ?ini"
    by (simp add: lossyNew_def NewClient_def sampleDefaults_def MaxPacketSizeOption_def
        SendQueueCapacityOption_def)
  have r1: "run sampleStrconv ?ini [Emit (MIncr ''a'' 1)] = Inr ?mid"
    by (simp add: lossyNew_def NewClient_def sampleDefaults_def MaxPacketSizeOption_def
        SendQueueCapacityOption_def Incr_def checkBuf_def flushBuf_def Let_def v)
  have g1: "GetLostPackets (client ?mid) = 1"
    by (simp add: lossyNew_def NewClient_def sampleDefaults_def MaxPacketSizeOption_def
        SendQueueCapacityOption_def Incr_def checkBuf_def flushBuf_def Let_def v
        GetLostPackets_def)
  have r12: "run sampleStrconv ?ini [Emit (MIncr ''a'' 1), Emit (MIncr ''b'' 2)] = Inr ?fin"
    by (simp add: lossyNew_def NewClient_def sampleDefaults_def MaxPacketSizeOption_def
        SendQueueCapacityOption_def Incr_def checkBuf_def flushBuf_def Let_def v)
  have g2: "GetLostPackets (client ?fin) = 2"
    by (simp add: lossyNew_def NewClient_def sampleDefaults_def MaxPacketSizeOption_def
        SendQueueCapacityOption_def Incr_def checkBuf_def flushBuf_def Let_def v
        GetLostPackets_def)
  have r2: "run sampleStrconv ?mid [Emit (MIncr ''b'' 2)] = Inr ?fin"
    using r1 r12 by (simp del: step.simps split: sum.splits)
  note t = report_tick_swaps_period_overall_monotone
    [where s = ?rs and defaults = sampleDefaults and addr = "''127.0.0.1:8125''"
       and opts = "[MaxPacketSizeOption 5, SendQueueCapacityOption 0]" and ini = ?ini
       and sc = sampleStrconv and evs = "[Emit (MIncr ''a'' 1)]" and mid = ?mid
       and evs' = "[Emit (MIncr ''b'' 2)]" and fin = ?fin]
  have a: "lostPacketsPeriod (client (reportLoop_timer ?rs)) = 0
      \<and> lostPacketsOverall (client (reportLoop_timer ?rs)) = lostPacketsOverall (client ?rs)
      \<and> logger (reportLoop_timer ?rs) =
          (if 0 < sint (lostPacketsPeriod (client ?rs))
           then logger ?rs @ [PacketsLost (lostPacketsPeriod (client ?rs))]
           else logger ?rs)"
    by (rule t [THEN conjunct1, THEN mp]) (simp add: systemOf_def)
  have b: "sint (GetLostPackets (client ?mid)) \<le> sint (GetLostPackets (client ?fin))"
    by (rule t [THEN conjunct2, THEN mp]) (use n r1 r2 in \<open>simp add: lossyNew_def\<close>)
  from a have a': "lostPacketsPeriod (client (reportLoop_timer ?rs)) = 0
      \<and> lostPacketsOverall (client (reportLoop_timer ?rs)) = 7
      \<and> logger (reportLoop_timer ?rs) = [PacketsLost 3]"
    by (simp add: systemOf_def)
  from n r1 r12 have i: "\<not> isl lossyNew"
    "\<not> isl (run sampleStrconv ?ini [Emit (MIncr ''a'' 1)])"
    "\<not> isl (run sampleStrconv ?ini [Emit (MIncr ''a'' 1), Emit (MIncr ''b'' 2)])"
    by (metis sum.disc(2))+
  from a' b g1 g2 i show ?thesis by blast
qed

section \<open>What the dispatch queue and the wire hold\<close>

lemma appendLines_options: "appendLines c ls = Inr c' \<Longrightarrow> options c' = options c"
  using appendLines_counters by blast

lemma step_options:
  assumes "step sc s e = Inr s'"
  shows "options (client s') = options (client s)"
proof (cases e)
  case (Emit m)
  then show ?thesis using assms
    by (auto simp: emit_appendLines split: sum.splits dest: appendLines_options)
next
  case FlushTimer
  then show ?thesis using assms
    by (auto simp: flushLoop_timer_def split: if_splits sum.splits dest!: flushIfNonEmpty_Inr)
next
  case FlushShutdown
  then show ?thesis using assms
    by (auto simp: flushLoop_shutdown_def split: if_splits sum.splits dest!: flushIfNonEmpty_Inr)
next
  case (Dial i ok)
  then show ?thesis using assms by (auto simp: sendLoop_dial_def split: if_splits)
next
  case (Receive i ok)
  then show ?thesis using assms
    by (auto simp: sendLoop_receive_def returnToPool_frame Let_def split: if_splits list.splits)
next
  case (Park i)
  then show ?thesis using assms by (auto simp: sendLoop_park_def split: if_splits)
next
  case (Wakeup i ok)
  then show ?thesis using assms
    by (auto simp: sendLoop_wakeup_def returnToPool_frame Let_def
          split: if_splits option.splits)
next
  case (ReconnectTimer i)
  then show ?thesis using assms by (auto simp: sendLoop_reconnect_def split: if_splits)
next
  case (Wake i)
  then show ?thesis using assms by (auto simp: sendLoop_wake_def split: if_splits)
next
  case ReportTimer
  then show ?thesis using assms by (auto simp: reportLoop_timer_def Let_def split: if_splits)
next
  case ReportShutdown
  then show ?thesis using assms by (auto simp: reportLoop_shutdown_def split: if_splits)
next
  case CloseCall
  then show ?thesis using assms by (auto simp: Close_call_def split: if_splits)
next
  case CloseReturn
  then show ?thesis using assms by (auto simp: Close_return_def split: if_splits)
qed

lemma run_options: "run sc s evs = Inr s' \<Longrightarrow> options (client s') = options (client s)"
proof (induction evs arbitrary: s)
  case Nil
  then show ?case by simp
next
  case (Cons e evs)
  then obtain s1 where "step sc s e = Inr s1" "run sc s1 evs = Inr s'"
    by (auto split: sum.splits)
  with Cons.IH [of s1] step_options [of sc s e s1] show ?case by simp
qed


text \<open>
  Invariants of the buffers: a property \<open>G\<close> of byte sequences that holds of the empty
  buffer, of every emitted line, and of a good buffer extended by a line that fits, holds
  of the aggregation buffer, of every queued buffer and of every buffer handed to a
  waiting send loop throughout a run; a property \<open>W\<close> that holds of every non-empty good
  buffer without its last byte holds of every datagram written.
\<close>

lemma handed_good: "map_of hs i = Some b \<Longrightarrow> list_all G (map snd hs) \<Longrightarrow> G b"
  by (auto dest!: map_of_SomeD simp: list_all_iff)

lemma handed_filter_good:
  "list_all G (map snd hs) \<Longrightarrow> list_all G (map snd (filter P hs))"
  by (auto simp: list_all_iff)

lemma appendLine_good:
  assumes "appendLine c l = Inr c1"
    and "G (buf c)" and "list_all G (sendQueue c)"
    and "G l"
    and "int (length (buf c) + length l) \<le> MaxPacketSize (options c) \<Longrightarrow> G (buf c @ l)"
    and "list_all G (map snd (sendQueueHanded c))"
  shows "G (buf c1) \<and> list_all G (sendQueue c1)
     \<and> list_all G (map snd (sendQueueHanded c1))"
  using appendLine_Inr [OF assms(1)] assms(2-) by (auto split: if_splits)

lemma appendLines_good:
  assumes "appendLines c ls = Inr c'"
    and "G (buf c)" and "list_all G (sendQueue c)"
    and "\<And>l. l \<in> set ls \<Longrightarrow> G l"
    and "\<And>b l. l \<in> set ls \<Longrightarrow> G b \<Longrightarrow>
           int (length b + length l) \<le> MaxPacketSize (options c) \<Longrightarrow> G (b @ l)"
    and "list_all G (map snd (sendQueueHanded c))"
  shows "G (buf c') \<and> list_all G (sendQueue c')
     \<and> list_all G (map snd (sendQueueHanded c'))"
proof -
  have "options c' = options c \<and> G (buf c') \<and> list_all G (sendQueue c')
        \<and> list_all G (map snd (sendQueueHanded c'))"
  proof (rule appendLines_preserves [OF assms(1)])
    show "options c = options c \<and> G (buf c) \<and> list_all G (sendQueue c)
        \<and> list_all G (map snd (sendQueueHanded c))"
      using assms(2,3,6) by simp
  next
    fix x l x1
    assume p: "options x = options c \<and> G (buf x) \<and> list_all G (sendQueue x)
        \<and> list_all G (map snd (sendQueueHanded x))"
      and l: "l \<in> set ls" and a: "appendLine x l = Inr x1"
    have "G (buf x1) \<and> list_all G (sendQueue x1)
        \<and> list_all G (map snd (sendQueueHanded x1))"
      using p l assms(4,5) by (intro appendLine_good [OF a]) auto
    with p appendLine_options [OF a]
    show "options x1 = options c \<and> G (buf x1) \<and> list_all G (sendQueue x1)
        \<and> list_all G (map snd (sendQueueHanded x1))" by simp
  qed
  then show ?thesis by simp
qed

lemma step_good:
  assumes "step sc s e = Inr s'"
    and "G []"
    and "\<And>l. l \<in> set (eventLines sc (options (client s)) e) \<Longrightarrow> G l"
    and "\<And>b l. l \<in> set (eventLines sc (options (client s)) e) \<Longrightarrow> G b \<Longrightarrow>
           int (length b + length l) \<le> MaxPacketSize (options (client s)) \<Longrightarrow> G (b @ l)"
    and "\<And>b. G b \<Longrightarrow> b \<noteq> [] \<Longrightarrow> W (butlast b)"
    and "G (buf (client s))" and "list_all G (sendQueue (client s))" and "list_all W (wire s)"
    and "list_all G (map snd (sendQueueHanded (client s)))"
  shows "G (buf (client s')) \<and> list_all G (sendQueue (client s')) \<and> list_all W (wire s')
     \<and> list_all G (map snd (sendQueueHanded (client s')))"
proof (cases e)
  case (Emit m)
  then obtain c' where c': "emit sc (client s) m = Inr c'" "s' = s\<lparr>client := c'\<rparr>"
    using assms(1) by (auto split: sum.splits)
  have "G (buf c') \<and> list_all G (sendQueue c')
      \<and> list_all G (map snd (sendQueueHanded c'))"
    using c'(1) assms(3,4) Emit
    by (intro appendLines_good [of "client s" "metricLines sc (options (client s)) m"]
          assms(6,7,9))
       (auto simp: emit_appendLines)
  with c'(2) assms(8) show ?thesis by simp
next
  case FlushTimer
  then show ?thesis using assms(1,2,6,7,8,9)
    by (auto simp: flushLoop_timer_def split: if_splits sum.splits dest!: flushIfNonEmpty_Inr)
next
  case FlushShutdown
  then show ?thesis using assms(1,2,6,7,8,9)
    by (auto simp: flushLoop_shutdown_def split: if_splits sum.splits dest!: flushIfNonEmpty_Inr)
next
  case (Dial i ok)
  then show ?thesis using assms(1,6,7,8,9) by (auto simp: sendLoop_dial_def split: if_splits)
next
  case (Receive i ok)
  have b: "take (length b - Suc 0) b = butlast b" for b :: bytes
    by (simp add: butlast_conv_take)
  from Receive show ?thesis using assms(1,5,6,7,8,9)
    by (auto simp: sendLoop_receive_def returnToPool_frame Let_def b
          split: if_splits list.splits)
next
  case (Park i)
  then show ?thesis using assms(1,6,7,8,9) by (auto simp: sendLoop_park_def split: if_splits)
next
  case (Wakeup i ok)
  have b: "take (length b - Suc 0) b = butlast b" for b :: bytes
    by (simp add: butlast_conv_take)
  show ?thesis
  proof (cases "map_of (sendQueueHanded (client s)) i")
    case None
    with Wakeup show ?thesis using assms(1,6,7,8,9)
      by (auto simp: sendLoop_wakeup_def split: if_splits)
  next
    case (Some h)
    then have "G h" using assms(9) by (rule handed_good)
    moreover have "list_all G (map snd (filter (\<lambda>h. fst h \<noteq> i) (sendQueueHanded (client s))))"
      using assms(9) by (rule handed_filter_good)
    ultimately show ?thesis using Wakeup Some assms(1,5,6,7,8,9)
      by (auto simp: sendLoop_wakeup_def returnToPool_frame Let_def b split: if_splits)
  qed
next
  case (ReconnectTimer i)
  then show ?thesis using assms(1,6,7,8,9) by (auto simp: sendLoop_reconnect_def split: if_splits)
next
  case (Wake i)
  then show ?thesis using assms(1,6,7,8,9) by (auto simp: sendLoop_wake_def split: if_splits)
next
  case ReportTimer
  then show ?thesis using assms(1,6,7,8,9)
    by (auto simp: reportLoop_timer_def Let_def split: if_splits)
next
  case ReportShutdown
  then show ?thesis using assms(1,6,7,8,9) by (auto simp: reportLoop_shutdown_def split: if_splits)
next
  case CloseCall
  then show ?thesis using assms(1,6,7,8,9) by (auto simp: Close_call_def split: if_splits)
next
  case CloseReturn
  then show ?thesis using assms(1,6,7,8,9) by (auto simp: Close_return_def split: if_splits)
qed

lemma run_good:
  assumes "run sc s evs = Inr s'"
    and "G []"
    and "\<And>l. l \<in> set (emittedLines sc (options (client s)) evs) \<Longrightarrow> G l"
    and "\<And>b l. l \<in> set (emittedLines sc (options (client s)) evs) \<Longrightarrow> G b \<Longrightarrow>
           int (length b + length l) \<le> MaxPacketSize (options (client s)) \<Longrightarrow> G (b @ l)"
    and "\<And>b. G b \<Longrightarrow> b \<noteq> [] \<Longrightarrow> W (butlast b)"
    and "G (buf (client s))" and "list_all G (sendQueue (client s))" and "list_all W (wire s)"
    and "list_all G (map snd (sendQueueHanded (client s)))"
  shows "G (buf (client s')) \<and> list_all G (sendQueue (client s')) \<and> list_all W (wire s')
     \<and> list_all G (map snd (sendQueueHanded (client s')))"
  using assms(1,3,4,6,7,8,9)
proof (induction evs arbitrary: s)
  case Nil
  then show ?case by simp
next
  case (Cons e evs)
  from Cons.prems(1) obtain s1 where s1: "step sc s e = Inr s1" "run sc s1 evs = Inr s'"
    by (auto split: sum.splits)
  have o: "options (client s1) = options (client s)" by (rule step_options [OF s1(1)])
  have g1: "G (buf (client s1)) \<and> list_all G (sendQueue (client s1)) \<and> list_all W (wire s1)
      \<and> list_all G (map snd (sendQueueHanded (client s1)))"
    using Cons.prems(2-) assms(2,5)
    by (intro step_good [OF s1(1), of G W]) (auto simp: emittedLines_def)
  show ?case
    using g1 Cons.prems(2,3) o
    by (intro Cons.IH [OF s1(2)]) (auto simp: emittedLines_def)
qed


lemma step_idle:
  assumes "step sc s e = Inr s'" and "eventLines sc (options (client s)) e = []"
    and "buf (client s) = []" and "sendQueue (client s) = []" and "wire s = []"
    and "sendQueueHanded (client s) = []"
  shows "buf (client s') = [] \<and> sendQueue (client s') = [] \<and> wire s' = []
     \<and> sendQueueHanded (client s') = []"
proof (cases e)
  case (Emit m)
  then show ?thesis using assms by (auto simp: emit_appendLines split: sum.splits)
next
  case FlushTimer
  then show ?thesis using assms
    by (auto simp: flushLoop_timer_def split: if_splits sum.splits dest!: flushIfNonEmpty_Inr)
next
  case FlushShutdown
  then show ?thesis using assms
    by (auto simp: flushLoop_shutdown_def split: if_splits sum.splits dest!: flushIfNonEmpty_Inr)
next
  case (Dial i ok)
  then show ?thesis using assms by (auto simp: sendLoop_dial_def split: if_splits)
next
  case (Receive i ok)
  from Receive show ?thesis using assms
    by (auto simp: sendLoop_receive_def split: if_splits)
next
  case (Park i)
  then show ?thesis using assms by (auto simp: sendLoop_park_def split: if_splits)
next
  case (Wakeup i ok)
  then show ?thesis using assms by (auto simp: sendLoop_wakeup_def split: if_splits)
next
  case (ReconnectTimer i)
  then show ?thesis using assms by (auto simp: sendLoop_reconnect_def split: if_splits)
next
  case (Wake i)
  then show ?thesis using assms by (auto simp: sendLoop_wake_def split: if_splits)
next
  case ReportTimer
  then show ?thesis using assms by (auto simp: reportLoop_timer_def Let_def split: if_splits)
next
  case ReportShutdown
  then show ?thesis using assms by (auto simp: reportLoop_shutdown_def split: if_splits)
next
  case CloseCall
  then show ?thesis using assms by (auto simp: Close_call_def split: if_splits)
next
  case CloseReturn
  then show ?thesis using assms by (auto simp: Close_return_def split: if_splits)
qed

lemma run_idle:
  assumes "run sc s evs = Inr s'" and "emittedLines sc (options (client s)) evs = []"
    and "buf (client s) = []" and "sendQueue (client s) = []" and "wire s = []"
    and "sendQueueHanded (client s) = []"
  shows "buf (client s') = [] \<and> sendQueue (client s') = [] \<and> wire s' = []
     \<and> sendQueueHanded (client s') = []"
  using assms
proof (induction evs arbitrary: s)
  case Nil
  then show ?case by simp
next
  case (Cons e evs)
  from Cons.prems(1) obtain s1 where s1: "step sc s e = Inr s1" "run sc s1 evs = Inr s'"
    by (auto split: sum.splits)
  have o: "options (client s1) = options (client s)" by (rule step_options [OF s1(1)])
  have "buf (client s1) = [] \<and> sendQueue (client s1) = [] \<and> wire s1 = []
      \<and> sendQueueHanded (client s1) = []"
    using Cons.prems by (intro step_idle [OF s1(1)]) (simp_all add: emittedLines_def)
  then show ?case using Cons.prems(2) o
    by (intro Cons.IH [OF s1(2)]) (simp_all add: emittedLines_def)
qed

lemma run_single_line_or_within:
  assumes "run sc s evs = Inr s'"
    and "buf (client s) = []" and "sendQueue (client s) = []" and "wire s = []"
    and "sendQueueHanded (client s) = []"
  shows "list_all (\<lambda>b. b = [] \<or> int (length b) \<le> MaxPacketSize (options (client s))
                       \<or> b \<in> set (emittedLines sc (options (client s)) evs))
           (sendQueue (client s'))
     \<and> list_all (\<lambda>b. b = [] \<or> int (length b) \<le> MaxPacketSize (options (client s))
                       \<or> b \<in> set (emittedLines sc (options (client s)) evs))
           (map snd (sendQueueHanded (client s')))"
proof -
  let ?G = "\<lambda>b. b = [] \<or> int (length b) \<le> MaxPacketSize (options (client s))
                       \<or> b \<in> set (emittedLines sc (options (client s)) evs)"
  have "?G (buf (client s')) \<and> list_all ?G (sendQueue (client s'))
        \<and> list_all (\<lambda>d. True) (wire s')
        \<and> list_all ?G (map snd (sendQueueHanded (client s')))"
    using assms(2,3,5)
    by (intro run_good [OF assms(1), of ?G "\<lambda>d. True"]) (auto simp: list_all_iff)
  then show ?thesis by simp
qed

lemma run_within:
  assumes "run sc s evs = Inr s'"
    and "buf (client s) = []" and "sendQueue (client s) = []" and "wire s = []"
    and "linesWithin sc (options (client s)) (MaxPacketSize (options (client s))) evs"
    and "sendQueueHanded (client s) = []"
  shows "list_all (\<lambda>b. int (length b) \<le> MaxPacketSize (options (client s)))
           (sendQueue (client s'))
     \<and> list_all (\<lambda>d. int (length d) \<le> MaxPacketSize (options (client s))) (wire s')
     \<and> (buf (client s') = []
         \<or> int (length (buf (client s'))) \<le> MaxPacketSize (options (client s)))
     \<and> list_all (\<lambda>b. int (length b) \<le> MaxPacketSize (options (client s)))
           (map snd (sendQueueHanded (client s')))"
proof (cases "emittedLines sc (options (client s)) evs = []")
  case True
  from run_idle [OF assms(1) True assms(2,3,4,6)] show ?thesis by simp
next
  case False
  let ?N = "MaxPacketSize (options (client s))"
  let ?G = "\<lambda>b :: bytes. int (length b) \<le> ?N"
  from False obtain l where "l \<in> set (emittedLines sc (options (client s)) evs)"
    by (cases "emittedLines sc (options (client s)) evs") auto
  with assms(5) have n: "0 \<le> ?N"
    by (auto simp: linesWithin_def list_all_iff)
  have "?G (buf (client s')) \<and> list_all ?G (sendQueue (client s')) \<and> list_all ?G (wire s')
        \<and> list_all ?G (map snd (sendQueueHanded (client s')))"
    using assms(2,3,4,5,6) n
    by (intro run_good [OF assms(1), of ?G ?G]) (auto simp: linesWithin_def list_all_iff)
  then show ?thesis by simp
qed


lemma metricLines_terminated:
  "l \<in> set (metricLines sc opts m) \<Longrightarrow> \<exists>body. l = body @ [CHR 0x0A]"
  by (cases m) (auto simp: metricLine_def split: if_splits)

lemma emittedLines_terminated:
  "l \<in> set (emittedLines sc opts evs) \<Longrightarrow> \<exists>body. l = body @ [CHR 0x0A]"
proof -
  assume "l \<in> set (emittedLines sc opts evs)"
  then obtain e where e: "l \<in> set (eventLines sc opts e)"
    by (auto simp: emittedLines_def)
  then show ?thesis by (cases e) (auto dest: metricLines_terminated)
qed

lemma butlast_concat_lines:
  assumes "ls \<noteq> []" and "list_all (\<lambda>l. \<exists>body. l = body @ [CHR 0x0A]) ls"
  shows "butlast (concat ls) = joinLines (map butlast ls)"
  using assms
proof (induction ls rule: joinLines.induct)
  case 1
  then show ?case by simp
next
  case (2 l)
  then show ?case by simp
next
  case (3 l m ls)
  from "3.prems" obtain body where l: "l = body @ [CHR 0x0A]" by auto
  from "3.prems" obtain mbody where m: "m = mbody @ [CHR 0x0A]" by auto
  define r where "r = concat (m # ls)"
  have ne: "r \<noteq> []" using m by (simp add: r_def)
  have "concat (l # m # ls) = l @ r" by (simp add: r_def)
  then have "butlast (concat (l # m # ls)) = l @ butlast r"
    using ne by (simp add: butlast_append)
  also have "butlast r = joinLines (map butlast (m # ls))"
    unfolding r_def using "3.IH" "3.prems" by simp
  finally show ?case using l by simp
qed

lemma run_whole_lines:
  assumes "run sc s evs = Inr s'"
    and "buf (client s) = []" and "sendQueue (client s) = []" and "wire s = []"
    and "sendQueueHanded (client s) = []"
  shows "list_all (\<lambda>b. \<exists>ls. set ls \<subseteq> set (emittedLines sc (options (client s)) evs)
                          \<and> b = concat ls) (sendQueue (client s'))
     \<and> list_all (\<lambda>d. \<exists>ls. ls \<noteq> [] \<and> set ls \<subseteq> set (emittedLines sc (options (client s)) evs)
                          \<and> d = joinLines (map butlast ls)) (wire s')
     \<and> list_all (\<lambda>b. \<exists>ls. set ls \<subseteq> set (emittedLines sc (options (client s)) evs)
                          \<and> b = concat ls) (map snd (sendQueueHanded (client s')))"
proof -
  let ?L = "set (emittedLines sc (options (client s)) evs)"
  let ?G = "\<lambda>b. \<exists>ls. set ls \<subseteq> ?L \<and> b = concat ls"
  let ?W = "\<lambda>d. \<exists>ls. ls \<noteq> [] \<and> set ls \<subseteq> ?L \<and> d = joinLines (map butlast ls)"
  have g0: "?G []" by (intro exI [of _ "[]"]) simp
  have g1: "?G l" if "l \<in> ?L" for l using that by (intro exI [of _ "[l]"]) simp
  have g2: "?G (b @ l)" if "l \<in> ?L" "?G b" for b l
  proof -
    from that(2) obtain ls where "set ls \<subseteq> ?L" "b = concat ls" by blast
    with that(1) show ?thesis by (intro exI [of _ "ls @ [l]"]) simp
  qed
  have w: "?W (butlast b)" if "?G b" "b \<noteq> []" for b
  proof -
    from that(1) obtain ls where ls: "set ls \<subseteq> ?L" "b = concat ls" by blast
    with that(2) have ne: "ls \<noteq> []" by auto
    have "list_all (\<lambda>l. \<exists>body. l = body @ [CHR 0x0A]) ls"
      using ls(1) emittedLines_terminated [of _ sc "options (client s)" evs]
      by (auto simp: list_all_iff)
    from butlast_concat_lines [OF ne this] ls ne show ?thesis by auto
  qed
  have "?G (buf (client s')) \<and> list_all ?G (sendQueue (client s')) \<and> list_all ?W (wire s')
        \<and> list_all ?G (map snd (sendQueueHanded (client s')))"
    using assms(2,3,4,5) g0 g1 g2 w
    by (intro run_good [OF assms(1), of ?G ?W]) simp_all
  then show ?thesis by simp
qed

text \<open>
  C1, as amended. For every run of a client made by \<open>NewClient\<close> with max packet size
  \<open>N\<close> (metric emissions interleaved with timer ticks, shutdown and the steps of the send
  loops), every buffer handed to the dispatch queue, by the overflow check after an append
  or by a timer or shutdown flush of the whole buffer, whether it is queued or handed
  directly to a send loop that waits, is empty, or holds at most \<open>N\<close> bytes, or is
  exactly one emitted line, which alone is longer than anything else allows. When no
  emitted line is longer than \<open>N\<close> bytes, every buffer handed to the queue and every
  datagram written hold at most \<open>N\<close> bytes, and so does the aggregation buffer, from
  which every flush takes what it hands over.
\<close>

theorem packets_within_max_size_when_lines_are:
  "(NewClient defaults addr opts = Inr ini \<and> run sc ini evs = Inr fin \<longrightarrow>
      list_all (\<lambda>b. b = [] \<or> int (length b) \<le> MaxPacketSize (options (client ini))
                     \<or> b \<in> set (emittedLines sc (options (client ini)) evs))
        (sendQueue (client fin))
      \<and> list_all (\<lambda>b. b = [] \<or> int (length b) \<le> MaxPacketSize (options (client ini))
                     \<or> b \<in> set (emittedLines sc (options (client ini)) evs))
        (map snd (sendQueueHanded (client fin))))
   \<and> (NewClient defaults addr opts = Inr ini \<and> run sc ini evs = Inr fin
        \<and> linesWithin sc (options (client ini)) (MaxPacketSize (options (client ini))) evs
      \<longrightarrow>
      list_all (\<lambda>b. int (length b) \<le> MaxPacketSize (options (client ini)))
        (sendQueue (client fin))
      \<and> list_all (\<lambda>d. int (length d) \<le> MaxPacketSize (options (client ini))) (wire fin)
      \<and> (buf (client fin) = []
          \<or> int (length (buf (client fin))) \<le> MaxPacketSize (options (client ini)))
      \<and> list_all (\<lambda>b. int (length b) \<le> MaxPacketSize (options (client ini)))
        (map snd (sendQueueHanded (client fin))))"
proof (intro conjI impI)
  assume a: "NewClient defaults addr opts = Inr ini \<and> run sc ini evs = Inr fin"
  then have r: "run sc ini evs = Inr fin" by simp
  have "list_all (\<lambda>b. b = [] \<or> int (length b) \<le> MaxPacketSize (options (client ini))
                     \<or> b \<in> set (emittedLines sc (options (client ini)) evs))
        (sendQueue (client fin))
     \<and> list_all (\<lambda>b. b = [] \<or> int (length b) \<le> MaxPacketSize (options (client ini))
                     \<or> b \<in> set (emittedLines sc (options (client ini)) evs))
        (map snd (sendQueueHanded (client fin)))"
    using a NewClient_Inr(1,2,8,16) [of defaults addr opts ini]
    by (intro run_single_line_or_within [OF r]) simp_all
  then show "list_all (\<lambda>b. b = [] \<or> int (length b) \<le> MaxPacketSize (options (client ini))
                     \<or> b \<in> set (emittedLines sc (options (client ini)) evs))
        (sendQueue (client fin))"
    "list_all (\<lambda>b. b = [] \<or> int (length b) \<le> MaxPacketSize (options (client ini))
                     \<or> b \<in> set (emittedLines sc (options (client ini)) evs))
        (map snd (sendQueueHanded (client fin)))"
    by simp_all
next
  assume a: "NewClient defaults addr opts = Inr ini \<and> run sc ini evs = Inr fin
        \<and> linesWithin sc (options (client ini)) (MaxPacketSize (options (client ini))) evs"
  then have r: "run sc ini evs = Inr fin" by simp
  have "list_all (\<lambda>b. int (length b) \<le> MaxPacketSize (options (client ini)))
           (sendQueue (client fin))
     \<and> list_all (\<lambda>d. int (length d) \<le> MaxPacketSize (options (client ini))) (wire fin)
     \<and> (buf (client fin) = []
         \<or> int (length (buf (client fin))) \<le> MaxPacketSize (options (client ini)))
     \<and> list_all (\<lambda>b. int (length b) \<le> MaxPacketSize (options (client ini)))
           (map snd (sendQueueHanded (client fin)))"
    using a NewClient_Inr(1,2,8,16) [of defaults addr opts ini]
    by (intro run_within [OF r]) simp_all
  then show "list_all (\<lambda>b. int (length b) \<le> MaxPacketSize (options (client ini)))
        (sendQueue (client fin))"
    "list_all (\<lambda>d. int (length d) \<le> MaxPacketSize (options (client ini))) (wire fin)"
    "buf (client fin) = []
          \<or> int (length (buf (client fin))) \<le> MaxPacketSize (options (client ini))"
    "list_all (\<lambda>b. int (length b) \<le> MaxPacketSize (options (client ini)))
        (map snd (sendQueueHanded (client fin)))"
    by simp_all
qed

text \<open>
  A run in which every line fits: packets of at most 16 bytes, lines of 6 and 13 bytes.
  The run below, in which the only line is longer than the packet. And a run of the
  client with the queue of capacity 0 in which a flush tick hands the buffer to the send
  loop that waits.
\<close>

theorem packets_within_max_size_when_lines_are_witness:
  "\<not> isl smallNew
   \<and> \<not> isl (run sampleStrconv (projr smallNew)
         [Emit (MIncr ''a'' 1), Emit (MIncr ''b'' 12345678), FlushTimer, Dial 0 True,
          Receive 0 True])
   \<and> linesWithin sampleStrconv (options (client (projr smallNew))) 16
         [Emit (MIncr ''a'' 1), Emit (MIncr ''b'' 12345678), FlushTimer, Dial 0 True,
          Receive 0 True]
   \<and> list_all (\<lambda>b. int (length b) \<le> 16)
        (sendQueue (client (projr (run sampleStrconv (projr smallNew)
         [Emit (MIncr ''a'' 1), Emit (MIncr ''b'' 12345678), FlushTimer, Dial 0 True,
          Receive 0 True]))))
   \<and> list_all (\<lambda>d. int (length d) \<le> 16)
        (wire (projr (run sampleStrconv (projr smallNew)
         [Emit (MIncr ''a'' 1), Emit (MIncr ''b'' 12345678), FlushTimer, Dial 0 True,
          Receive 0 True])))
   \<and> sendQueue (client (projr (run sampleStrconv (projr smallNew)
         [Emit (MIncr ''a'' 1), Emit (MIncr ''b'' 12345678), FlushTimer, Dial 0 True,
          Receive 0 True])))
      = [''b:12345678|c'' @ [CHR 0x0A]]
   \<and> wire (projr (run sampleStrconv (projr smallNew)
         [Emit (MIncr ''a'' 1), Emit (MIncr ''b'' 12345678), FlushTimer, Dial 0 True,
          Receive 0 True]))
      = [''a:1|c'']
   \<and> list_all (\<lambda>b. b = [] \<or> int (length b) \<le> 5
                  \<or> b \<in> set (emittedLines sampleStrconv (options (client (projr tinyNew)))
                              [Emit (MIncr ''abcdef'' 1), FlushTimer]))
        (sendQueue (client (projr (run sampleStrconv (projr tinyNew)
           [Emit (MIncr ''abcdef'' 1), FlushTimer]))))
   \<and> \<not> isl unbufferedNew
   \<and> \<not> isl (run sampleStrconv (projr unbufferedNew)
         [Dial 0 True, Park 0, Emit (MIncr ''a'' 1), FlushTimer])
   \<and> sendQueueHanded (client (projr (run sampleStrconv (projr unbufferedNew)
         [Dial 0 True, Park 0, Emit (MIncr ''a'' 1), FlushTimer])))
      = [(0, ''a:1|c'' @ [CHR 0x0A])]
   \<and> list_all (\<lambda>b. int (length b) \<le> 1432)
        (map snd (sendQueueHanded (client (projr (run sampleStrconv (projr unbufferedNew)
         [Dial 0 True, Park 0, Emit (MIncr ''a'' 1), FlushTimer])))))"
proof -
  let ?evs = "[Emit (MIncr ''a'' 1), Emit (MIncr ''b'' 12345678), FlushTimer, Dial 0 True,
          Receive 0 True]"
  let ?ini = "projr smallNew"
  let ?fin = "projr (run sampleStrconv ?ini ?evs)"
  let ?tevs = "[Emit (MIncr ''abcdef'' 1), FlushTimer]"
  let ?tini = "projr tinyNew"
  let ?tfin = "projr (run sampleStrconv ?tini ?tevs)"
  let ?uevs = "[Dial 0 True, Park 0, Emit (MIncr ''a'' 1), FlushTimer]"
  let ?uini = "projr unbufferedNew"
  let ?ufin = "projr (run sampleStrconv ?uini ?uevs)"
  have v: "formatInt 1 = ''1''" "formatInt 12345678 = ''12345678''"
    by (simp_all add: formatInt_def formatUint.simps)
  have n: "NewClient sampleDefaults ''127.0.0.1:8125'' [MaxPacketSizeOption 16] = Inr ?ini"
    by (simp add: smallNew_def eval_defs)
  have r: "run sampleStrconv ?ini ?evs = Inr ?fin"
    by (simp add: smallNew_def eval_defs v)
  have o: "MaxPacketSize (options (client ?ini)) = 16"
    by (simp add: smallNew_def eval_defs)
  have lw: "linesWithin sampleStrconv (options (client ?ini)) 16 ?evs"
    by (simp add: smallNew_def eval_defs v linesWithin_def emittedLines_def metricLine_def)
  have q: "sendQueue (client ?fin) = [''b:12345678|c'' @ [CHR 0x0A]]"
    by (simp add: smallNew_def eval_defs v)
  have w: "wire ?fin = [''a:1|c'']"
    by (simp add: smallNew_def eval_defs v)
  have tn: "NewClient sampleDefaults ''127.0.0.1:8125'' [MaxPacketSizeOption 5] = Inr ?tini"
    by (simp add: tinyNew_def eval_defs)
  have tr: "run sampleStrconv ?tini ?tevs = Inr ?tfin"
    by (simp add: tinyNew_def eval_defs v)
  have "tinyNew = Inr ?tini"
    using tn by (simp add: tinyNew_def)
  have to: "MaxPacketSize (options (client ?tini)) = 5"
    by (simp add: tinyNew_def eval_defs)
  have un: "NewClient sampleDefaults ''127.0.0.1:8125'' [SendQueueCapacityOption 0]
            = Inr ?uini"
    by (simp add: unbufferedNew_def eval_defs)
  have ur: "run sampleStrconv ?uini ?uevs = Inr ?ufin"
    by (simp add: unbufferedNew_def eval_defs v)
  have uo: "MaxPacketSize (options (client ?uini)) = 1432"
    by (simp add: unbufferedNew_def eval_defs)
  have ulw: "linesWithin sampleStrconv (options (client ?uini)) 1432 ?uevs"
    by (simp add: unbufferedNew_def eval_defs v linesWithin_def emittedLines_def
        metricLine_def)
  have uh: "sendQueueHanded (client ?ufin) = [(0, ''a:1|c'' @ [CHR 0x0A])]"
    by (simp add: unbufferedNew_def eval_defs v)
  note t = packets_within_max_size_when_lines_are
    [where defaults = sampleDefaults and addr = "''127.0.0.1:8125''"
       and opts = "[MaxPacketSizeOption 16]" and ini = ?ini and sc = sampleStrconv
       and evs = ?evs and fin = ?fin]
  note u = packets_within_max_size_when_lines_are
    [where defaults = sampleDefaults and addr = "''127.0.0.1:8125''"
       and opts = "[MaxPacketSizeOption 5]" and ini = ?tini and sc = sampleStrconv
       and evs = ?tevs and fin = ?tfin]
  note h = packets_within_max_size_when_lines_are
    [where defaults = sampleDefaults and addr = "''127.0.0.1:8125''"
       and opts = "[SendQueueCapacityOption 0]" and ini = ?uini and sc = sampleStrconv
       and evs = ?uevs and fin = ?ufin]
  have "list_all (\<lambda>b. int (length b) \<le> MaxPacketSize (options (client ?ini)))
        (sendQueue (client ?fin))
      \<and> list_all (\<lambda>d. int (length d) \<le> MaxPacketSize (options (client ?ini))) (wire ?fin)
      \<and> (buf (client ?fin) = []
          \<or> int (length (buf (client ?fin))) \<le> MaxPacketSize (options (client ?ini)))
      \<and> list_all (\<lambda>b. int (length b) \<le> MaxPacketSize (options (client ?ini)))
        (map snd (sendQueueHanded (client ?fin)))"
    by (rule t [THEN conjunct2, THEN mp]) (use n r lw o in \<open>simp only: simp_thms\<close>)
  then have a: "list_all (\<lambda>b. int (length b) \<le> MaxPacketSize (options (client ?ini)))
        (sendQueue (client ?fin))
      \<and> list_all (\<lambda>d. int (length d) \<le> MaxPacketSize (options (client ?ini))) (wire ?fin)"
    by blast
  have b: "list_all (\<lambda>b. b = [] \<or> int (length b) \<le> MaxPacketSize (options (client ?tini))
                     \<or> b \<in> set (emittedLines sampleStrconv (options (client ?tini)) ?tevs))
        (sendQueue (client ?tfin))"
    by (rule u [THEN conjunct1, THEN mp, THEN conjunct1])
       (use tn tr in \<open>simp only: simp_thms\<close>)
  have "list_all (\<lambda>b. int (length b) \<le> MaxPacketSize (options (client ?uini)))
        (sendQueue (client ?ufin))
      \<and> list_all (\<lambda>d. int (length d) \<le> MaxPacketSize (options (client ?uini))) (wire ?ufin)
      \<and> (buf (client ?ufin) = []
          \<or> int (length (buf (client ?ufin))) \<le> MaxPacketSize (options (client ?uini)))
      \<and> list_all (\<lambda>b. int (length b) \<le> MaxPacketSize (options (client ?uini)))
        (map snd (sendQueueHanded (client ?ufin)))"
    by (rule h [THEN conjunct2, THEN mp]) (use un ur ulw uo in \<open>simp only: simp_thms\<close>)
  then have c: "list_all (\<lambda>b. int (length b) \<le> MaxPacketSize (options (client ?uini)))
        (map snd (sendQueueHanded (client ?ufin)))"
    by blast
  have "smallNew = Inr ?ini"
    using n by (simp add: smallNew_def)
  with r have i: "\<not> isl smallNew" "\<not> isl (run sampleStrconv ?ini ?evs)"
    by (metis sum.disc(2))+
  have "unbufferedNew = Inr ?uini"
    using un by (simp add: unbufferedNew_def)
  with ur have ui: "\<not> isl unbufferedNew" "\<not> isl (run sampleStrconv ?uini ?uevs)"
    by (metis sum.disc(2))+
  from a b c i ui lw q w uh show ?thesis unfolding o to uo by (simp only: simp_thms)
qed

text \<open>
  C1, as stated, fails. A client with max packet size 5 and one counter, whose line
  \<open>abcdef:1|c\<close> and newline is 11 bytes long: the overflow check hands over the empty
  buffer, the flush tick hands over the 11 bytes, and a send loop writes 10 bytes.
\<close>

theorem oversized_line_exceeds_max_size:
  "\<not> isl tinyNew
   \<and> MaxPacketSize (options (client (projr tinyNew))) = 5
   \<and> \<not> isl (run sampleStrconv (projr tinyNew)
         [Emit (MIncr ''abcdef'' 1), FlushTimer, Dial 0 True, Receive 0 True, Receive 0 True])
   \<and> sendQueue (client (projr (run sampleStrconv (projr tinyNew)
         [Emit (MIncr ''abcdef'' 1), FlushTimer])))
      = [[], ''abcdef:1|c'' @ [CHR 0x0A]]
   \<and> map length (sendQueue (client (projr (run sampleStrconv (projr tinyNew)
         [Emit (MIncr ''abcdef'' 1), FlushTimer]))))
      = [0, 11]
   \<and> wire (projr (run sampleStrconv (projr tinyNew)
         [Emit (MIncr ''abcdef'' 1), FlushTimer, Dial 0 True, Receive 0 True, Receive 0 True]))
      = [''abcdef:1|c'']
   \<and> map length (wire (projr (run sampleStrconv (projr tinyNew)
         [Emit (MIncr ''abcdef'' 1), FlushTimer, Dial 0 True, Receive 0 True, Receive 0 True])))
      = [10]"
proof -
  have v: "formatInt 1 = ''1''"
    by (simp add: formatInt_def formatUint.simps)
  show ?thesis by (simp add: tinyNew_def eval_defs v)
qed

text \<open>
  C8. Every buffer handed to the dispatch queue, whether it is queued or handed directly
  to a send loop that waits, is a concatenation of complete lines emitted in the run,
  each ending with a newline, so it is empty or ends with a newline. A send worker that
  receives a non-empty buffer, from the queue or directly, and writes it writes exactly
  the buffer without its final byte, as one datagram; every datagram written is a
  non-empty sequence of emitted lines, without their newlines, joined by newlines, with
  no newline at the end.
\<close>

theorem queued_buffers_are_whole_lines:
  "(NewClient defaults addr opts = Inr ini \<and> run sc ini evs = Inr fin \<longrightarrow>
      list_all (\<lambda>b. \<exists>ls. set ls \<subseteq> set (emittedLines sc (options (client ini)) evs)
                         \<and> b = concat ls) (sendQueue (client fin))
      \<and> list_all (\<lambda>b. b = [] \<or> last b = CHR 0x0A) (sendQueue (client fin))
      \<and> list_all (\<lambda>d. \<exists>ls. ls \<noteq> []
                         \<and> set ls \<subseteq> set (emittedLines sc (options (client ini)) evs)
                         \<and> d = joinLines (map butlast ls)) (wire fin)
      \<and> list_all (\<lambda>b. \<exists>ls. set ls \<subseteq> set (emittedLines sc (options (client ini)) evs)
                         \<and> b = concat ls) (map snd (sendQueueHanded (client fin)))
      \<and> list_all (\<lambda>b. b = [] \<or> last b = CHR 0x0A)
          (map snd (sendQueueHanded (client fin))))
   \<and> (l \<in> set (emittedLines sc copts evs) \<longrightarrow> l \<noteq> [] \<and> last l = CHR 0x0A)
   \<and> (i < length (sendLoops s) \<and> sendLoops s ! i = Ready
        \<and> sendQueue (client s) = b # rest \<and> b \<noteq> [] \<longrightarrow>
      wire (sendLoop_receive s i True) = wire s @ [butlast b]
      \<and> sendQueue (client (sendLoop_receive s i True)) = rest)
   \<and> (i < length (sendLoops s) \<and> sendLoops s ! i = Parked
        \<and> map_of (sendQueueHanded (client s)) i = Some b \<and> b \<noteq> [] \<longrightarrow>
      wire (sendLoop_wakeup s i True) = wire s @ [butlast b]
      \<and> sendQueueHanded (client (sendLoop_wakeup s i True))
          = filter (\<lambda>h. fst h \<noteq> i) (sendQueueHanded (client s)))"
proof (intro conjI impI)
  assume a: "NewClient defaults addr opts = Inr ini \<and> run sc ini evs = Inr fin"
  then have r: "run sc ini evs = Inr fin" by simp
  have w: "list_all (\<lambda>b. \<exists>ls. set ls \<subseteq> set (emittedLines sc (options (client ini)) evs)
                          \<and> b = concat ls) (sendQueue (client fin))
     \<and> list_all (\<lambda>d. \<exists>ls. ls \<noteq> [] \<and> set ls \<subseteq> set (emittedLines sc (options (client ini)) evs)
                          \<and> d = joinLines (map butlast ls)) (wire fin)
     \<and> list_all (\<lambda>b. \<exists>ls. set ls \<subseteq> set (emittedLines sc (options (client ini)) evs)
                          \<and> b = concat ls) (map snd (sendQueueHanded (client fin)))"
    using a NewClient_Inr(1,2,8,16) [of defaults addr opts ini]
    by (intro run_whole_lines [OF r]) simp_all
  then show "list_all (\<lambda>b. \<exists>ls. set ls \<subseteq> set (emittedLines sc (options (client ini)) evs)
                         \<and> b = concat ls) (sendQueue (client fin))"
    "list_all (\<lambda>d. \<exists>ls. ls \<noteq> []
                         \<and> set ls \<subseteq> set (emittedLines sc (options (client ini)) evs)
                         \<and> d = joinLines (map butlast ls)) (wire fin)"
    "list_all (\<lambda>b. \<exists>ls. set ls \<subseteq> set (emittedLines sc (options (client ini)) evs)
                         \<and> b = concat ls) (map snd (sendQueueHanded (client fin)))"
    by simp_all
  have e: "b = [] \<or> last b = CHR 0x0A"
    if "\<exists>ls. set ls \<subseteq> set (emittedLines sc (options (client ini)) evs) \<and> b = concat ls"
    for b
  proof -
    from that obtain ls where ls: "set ls \<subseteq> set (emittedLines sc (options (client ini)) evs)"
      "b = concat ls"
      by blast
    show ?thesis
    proof (cases "ls = []")
      case True
      with ls show ?thesis by simp
    next
      case False
      then obtain ks k where k: "ls = ks @ [k]" by (metis rev_exhaust)
      with ls(1) obtain body where "k = body @ [CHR 0x0A]"
        using emittedLines_terminated [of k sc "options (client ini)" evs] by auto
      with k ls(2) show ?thesis by simp
    qed
  qed
  from w e show "list_all (\<lambda>b. b = [] \<or> last b = CHR 0x0A) (sendQueue (client fin))"
    unfolding list_all_iff by blast
  from w e show "list_all (\<lambda>b. b = [] \<or> last b = CHR 0x0A)
          (map snd (sendQueueHanded (client fin)))"
    unfolding list_all_iff by blast
next
  assume "l \<in> set (emittedLines sc copts evs)"
  then obtain body where "l = body @ [CHR 0x0A]"
    using emittedLines_terminated by blast
  then show "l \<noteq> []" "last l = CHR 0x0A" by simp_all
next
  assume a: "i < length (sendLoops s) \<and> sendLoops s ! i = Ready
        \<and> sendQueue (client s) = b # rest \<and> b \<noteq> []"
  then show "wire (sendLoop_receive s i True) = wire s @ [butlast b]"
    "sendQueue (client (sendLoop_receive s i True)) = rest"
    by (simp_all add: sendLoop_receive_def returnToPool_frame butlast_conv_take)
next
  assume a: "i < length (sendLoops s) \<and> sendLoops s ! i = Parked
        \<and> map_of (sendQueueHanded (client s)) i = Some b \<and> b \<noteq> []"
  then show "wire (sendLoop_wakeup s i True) = wire s @ [butlast b]"
    "sendQueueHanded (client (sendLoop_wakeup s i True))
          = filter (\<lambda>h. fst h \<noteq> i) (sendQueueHanded (client s))"
    by (simp_all add: sendLoop_wakeup_def returnToPool_frame butlast_conv_take)
qed

text \<open>
  The two counters of the \<open>FlushedIncr\<close> test, flushed by the timer and written by the
  send loop as one datagram; a line of a run; a connected send loop with one queued
  buffer; and a send loop that was handed a buffer while it waited.
\<close>

theorem queued_buffers_are_whole_lines_witness:
  "\<not> isl testNew
   \<and> \<not> isl (run sampleStrconv (projr testNew)
         [Emit (MIncr ''req.count'' 30), Emit (MIncr ''req.count'' 20), FlushTimer])
   \<and> \<not> isl (run sampleStrconv (projr testNew)
         [Emit (MIncr ''req.count'' 30), Emit (MIncr ''req.count'' 20), FlushTimer,
          Dial 0 True, Receive 0 True])
   \<and> sendQueue (client (projr (run sampleStrconv (projr testNew)
         [Emit (MIncr ''req.count'' 30), Emit (MIncr ''req.count'' 20), FlushTimer])))
      = [''foo.req.count:30|c'' @ [CHR 0x0A] @ ''foo.req.count:20|c'' @ [CHR 0x0A]]
   \<and> wire (projr (run sampleStrconv (projr testNew)
         [Emit (MIncr ''req.count'' 30), Emit (MIncr ''req.count'' 20), FlushTimer,
          Dial 0 True, Receive 0 True]))
      = [''foo.req.count:30|c'' @ [CHR 0x0A] @ ''foo.req.count:20|c'']
   \<and> list_all (\<lambda>b. b = [] \<or> last b = CHR 0x0A)
        (sendQueue (client (projr (run sampleStrconv (projr testNew)
         [Emit (MIncr ''req.count'' 30), Emit (MIncr ''req.count'' 20), FlushTimer]))))
   \<and> list_all (\<lambda>d. \<exists>ls. ls \<noteq> []
          \<and> set ls \<subseteq> set (emittedLines sampleStrconv (options (client (projr testNew)))
                [Emit (MIncr ''req.count'' 30), Emit (MIncr ''req.count'' 20), FlushTimer,
                 Dial 0 True, Receive 0 True])
          \<and> d = joinLines (map butlast ls))
        (wire (projr (run sampleStrconv (projr testNew)
         [Emit (MIncr ''req.count'' 30), Emit (MIncr ''req.count'' 20), FlushTimer,
          Dial 0 True, Receive 0 True])))
   \<and> last (''a:1|c'' @ [CHR 0x0A]) = CHR 0x0A
   \<and> wire (sendLoop_receive
        (systemOf (smallClient\<lparr>sendQueue := [''x:1|c'' @ [CHR 0x0A]]\<rparr>)) 0 True)
      = [''x:1|c'']
   \<and> wire (sendLoop_wakeup
        ((systemOf (smallClient\<lparr>sendQueueHanded := [(0, ''x:1|c'' @ [CHR 0x0A])]\<rparr>))
           \<lparr>sendLoops := [Parked]\<rparr>) 0 True)
      = [''x:1|c'']"
proof -
  let ?qevs = "[Emit (MIncr ''req.count'' 30), Emit (MIncr ''req.count'' 20), FlushTimer]"
  let ?wevs = "[Emit (MIncr ''req.count'' 30), Emit (MIncr ''req.count'' 20), FlushTimer,
          Dial 0 True, Receive 0 True]"
  let ?ini = "projr testNew"
  let ?qfin = "projr (run sampleStrconv ?ini ?qevs)"
  let ?wfin = "projr (run sampleStrconv ?ini ?wevs)"
  let ?rs = "systemOf (smallClient\<lparr>sendQueue := [''x:1|c'' @ [CHR 0x0A]]\<rparr>)"
  let ?ps = "(systemOf (smallClient\<lparr>sendQueueHanded := [(0, ''x:1|c'' @ [CHR 0x0A])]\<rparr>))
           \<lparr>sendLoops := [Parked]\<rparr>"
  have v: "formatInt 30 = ''30''" "formatInt 20 = ''20''" "formatInt 1 = ''1''"
    by (simp_all add: formatInt_def formatUint.simps)
  have n: "NewClient sampleDefaults ''127.0.0.1:8125''
             [MetricPrefixOption ''foo.'', MaxPacketSizeOption 1400] = Inr ?ini"
    by (simp add: testNew_def eval_defs)
  have qr: "run sampleStrconv ?ini ?qevs = Inr ?qfin"
    by (simp add: testNew_def eval_defs v)
  have wr: "run sampleStrconv ?ini ?wevs = Inr ?wfin"
    by (simp add: testNew_def eval_defs v)
  have q: "sendQueue (client ?qfin)
      = [''foo.req.count:30|c'' @ [CHR 0x0A] @ ''foo.req.count:20|c'' @ [CHR 0x0A]]"
    by (simp add: testNew_def eval_defs v)
  have w: "wire ?wfin = [''foo.req.count:30|c'' @ [CHR 0x0A] @ ''foo.req.count:20|c'']"
    by (simp add: testNew_def eval_defs v)
  note tq = queued_buffers_are_whole_lines
    [where defaults = sampleDefaults and addr = "''127.0.0.1:8125''"
       and opts = "[MetricPrefixOption ''foo.'', MaxPacketSizeOption 1400]" and ini = ?ini
       and sc = sampleStrconv and evs = ?qevs and fin = ?qfin]
  note tw = queued_buffers_are_whole_lines
    [where defaults = sampleDefaults and addr = "''127.0.0.1:8125''"
       and opts = "[MetricPrefixOption ''foo.'', MaxPacketSizeOption 1400]" and ini = ?ini
       and sc = sampleStrconv and evs = ?wevs and fin = ?wfin]
  note tl = queued_buffers_are_whole_lines
    [where l = "''a:1|c'' @ [CHR 0x0A]" and sc = sampleStrconv and copts = sampleDefaults
       and evs = "[Emit (MIncr ''a'' 1)]"]
  note ts = queued_buffers_are_whole_lines
    [where i = 0 and s = ?rs and b = "''x:1|c'' @ [CHR 0x0A]" and rest = "[]"]
  note tp = queued_buffers_are_whole_lines
    [where i = 0 and s = ?ps and b = "''x:1|c'' @ [CHR 0x0A]"]
  have a: "list_all (\<lambda>b. b = [] \<or> last b = CHR 0x0A) (sendQueue (client ?qfin))"
    using tq [THEN conjunct1, THEN mp, OF conjI [OF n qr]] by (simp only: simp_thms)
  have b: "list_all (\<lambda>d. \<exists>ls. ls \<noteq> []
          \<and> set ls \<subseteq> set (emittedLines sampleStrconv (options (client ?ini)) ?wevs)
          \<and> d = joinLines (map butlast ls)) (wire ?wfin)"
    using tw [THEN conjunct1, THEN mp, OF conjI [OF n wr]] by (simp only: simp_thms)
  have c: "last (''a:1|c'' @ [CHR 0x0A]) = CHR 0x0A"
    by (rule tl [THEN conjunct2, THEN conjunct1, THEN mp, THEN conjunct2])
       (simp add: emittedLines_def metricLine_def v sampleDefaults_def)
  have "wire (sendLoop_receive ?rs 0 True) = wire ?rs @ [butlast (''x:1|c'' @ [CHR 0x0A])]"
    by (rule ts [THEN conjunct2, THEN conjunct2, THEN conjunct1, THEN mp, THEN conjunct1])
       (simp add: systemOf_def)
  then have d: "wire (sendLoop_receive ?rs 0 True) = [''x:1|c'']"
    by (simp add: systemOf_def)
  have "wire (sendLoop_wakeup ?ps 0 True) = wire ?ps @ [butlast (''x:1|c'' @ [CHR 0x0A])]"
    by (rule tp [THEN conjunct2, THEN conjunct2, THEN conjunct2, THEN mp, THEN conjunct1])
       (simp add: systemOf_def)
  then have e: "wire (sendLoop_wakeup ?ps 0 True) = [''x:1|c'']"
    by (simp add: systemOf_def)
  have "testNew = Inr ?ini"
    using n by (simp add: testNew_def)
  with qr wr have i: "\<not> isl testNew" "\<not> isl (run sampleStrconv ?ini ?qevs)"
    "\<not> isl (run sampleStrconv ?ini ?wevs)"
    by (metis sum.disc(2))+
  from a b c d e i q w show ?thesis by (simp only: simp_thms)
qed

section \<open>Close\<close>











































end
